theory Spec2Isabelle
  imports Main "HOL-Library.Char_ord" "HOL-Library.List_Lexorder" "HOL-Library.Product_Lexorder"
begin

section \<open>Values of the request body\<close>

text \<open>
  The server (\<^verbatim>\<open>server/index.js\<close>, in its version with rate limiting, pruning and
  statistics) reads the fields of a JSON body by destructuring. A field is absent
  (\<open>JUndefined\<close>), \<^verbatim>\<open>null\<close>, a boolean, a number or a string. Numbers are the integers;
  fractions, and objects or arrays as field values, are outside this model.
\<close>

datatype jsval = JUndefined | JNull | JBool bool | JNum int | JStr string

text \<open>JavaScript's truthiness, which decides \<^verbatim>\<open>!x\<close> and \<^verbatim>\<open>x || null\<close>.\<close>

fun truthy :: "jsval \<Rightarrow> bool" where
  "truthy JUndefined = False"
| "truthy JNull = False"
| "truthy (JBool b) = b"
| "truthy (JNum n) = (n \<noteq> 0)"
| "truthy (JStr s) = (s \<noteq> [])"

text \<open>\<^verbatim>\<open>x || null\<close>: the value itself when truthy, \<^verbatim>\<open>null\<close> otherwise.\<close>

definition or_null :: "jsval \<Rightarrow> jsval" where
  "or_null v = (if truthy v then v else JNull)"

text \<open>A destructuring default, \<^verbatim>\<open>{ x = d }\<close>: it applies to an absent field only.\<close>

definition default_to :: "jsval \<Rightarrow> jsval \<Rightarrow> jsval" where
  "default_to d v = (if v = JUndefined then d else v)"

type_synonym json_object = "string \<rightharpoonup> jsval"

text \<open>\<^verbatim>\<open>req.body || {}\<close>, and the reading of one field of it.\<close>

definition body_or_empty :: "json_object option \<Rightarrow> json_object" where
  "body_or_empty b = (case b of None \<Rightarrow> Map.empty | Some obj \<Rightarrow> obj)"

definition field :: "json_object \<Rightarrow> string \<Rightarrow> jsval" where
  "field obj k = (case obj k of None \<Rightarrow> JUndefined | Some v \<Rightarrow> v)"

section \<open>Query parameters\<close>

text \<open>
  The driver sends every parameter as text: a string as it is, a number and a boolean
  through \<^verbatim>\<open>toString()\<close>, \<^verbatim>\<open>null\<close> and \<^verbatim>\<open>undefined\<close> as SQL NULL (\<open>None\<close>).
\<close>

fun digits :: "nat \<Rightarrow> string" where
  "digits n = (if n < 10 then [''0123456789'' ! n]
               else digits (n div 10) @ [''0123456789'' ! (n mod 10)])"

declare digits.simps [simp del]

definition number_toString :: "int \<Rightarrow> string" where
  "number_toString n = (if n < 0 then CHR ''-'' # digits (nat (- n)) else digits (nat n))"

fun prepareValue :: "jsval \<Rightarrow> string option" where
  "prepareValue JUndefined = None"
| "prepareValue JNull = None"
| "prepareValue (JBool b) = Some (if b then ''true'' else ''false'')"
| "prepareValue (JNum n) = Some (number_toString n)"
| "prepareValue (JStr s) = Some s"

text \<open>
  What PostgreSQL makes of a parameter depends on the type of the column or operand it is
  bound to. A \<^verbatim>\<open>text\<close> column takes the text. A numeric type reads the text of a number
  back as that number (within its range) and rejects the text of a boolean. What the
  types make of any other string is decided by input functions that are not part of the
  repository; they are parameters of the model, each returning \<open>None\<close> for a text
  the type rejects:
  \<^item> \<open>int4in\<close> reads the \<^verbatim>\<open>int\<close> column \<^verbatim>\<open>status\<close>;
  \<^item> \<open>inet_in\<close> reads the \<^verbatim>\<open>inet\<close> column \<^verbatim>\<open>ip\<close> (as its canonical text);
  \<^item> \<open>interval_in\<close> reads the operand of \<^verbatim>\<open>interval '1 day' * $1\<close> and gives the
    length of the resulting interval in microseconds.
\<close>

record postgres =
  int4in :: "string \<Rightarrow> int option"
  inet_in :: "string \<Rightarrow> string option"
  interval_in :: "string \<Rightarrow> int option"

datatype db_error =
    ConnectionFailed
  | NotNullViolation
  | ForeignKeyViolation
  | InvalidInput
  | NumericValueOutOfRange

definition hour :: int where "hour = 3600000000"
definition day :: int where "day = 86400000000"

definition int4_max :: nat where "int4_max = 2147483647"

definition as_int4 :: "postgres \<Rightarrow> jsval \<Rightarrow> db_error + int option" where
  "as_int4 pg v =
     (case v of
        JUndefined \<Rightarrow> Inr None
      | JNull \<Rightarrow> Inr None
      | JBool b \<Rightarrow> Inl InvalidInput
      | JNum n \<Rightarrow> (if - 2147483648 \<le> n \<and> n \<le> 2147483647 then Inr (Some n)
                  else Inl NumericValueOutOfRange)
      | JStr s \<Rightarrow> (case int4in pg s of None \<Rightarrow> Inl InvalidInput | Some n \<Rightarrow> Inr (Some n)))"

definition as_inet :: "postgres \<Rightarrow> jsval \<Rightarrow> db_error + string option" where
  "as_inet pg v =
     (case prepareValue v of
        None \<Rightarrow> Inr None
      | Some t \<Rightarrow> (case inet_in pg t of None \<Rightarrow> Inl InvalidInput | Some a \<Rightarrow> Inr (Some a)))"

definition as_interval :: "postgres \<Rightarrow> jsval \<Rightarrow> db_error + int option" where
  "as_interval pg v =
     (case v of
        JUndefined \<Rightarrow> Inr None
      | JNull \<Rightarrow> Inr None
      | JBool b \<Rightarrow> Inl InvalidInput
      | JNum n \<Rightarrow> Inr (Some (n * day))
      | JStr s \<Rightarrow> (case interval_in pg s of None \<Rightarrow> Inl InvalidInput | Some i \<Rightarrow> Inr (Some i)))"

section \<open>Tables\<close>

text \<open>
  The three tables of \<^verbatim>\<open>sql/001_init.sql\<close>. A timestamp is a number of microseconds
  (the resolution of \<^verbatim>\<open>timestamptz\<close>), a nullable column an \<open>option\<close>. The session's time
  zone is taken to be UTC, so that a day is 86400 seconds.
\<close>

type_synonym timestamp = int

record app =
  a_id :: nat
  a_slug :: string
  a_name :: string
  a_repo_url :: "string option"
  a_public_url :: "string option"
  a_created_at :: timestamp

record deployment =
  d_id :: nat
  d_app_id :: nat
  d_environment :: string
  d_version :: "string option"
  d_note :: "string option"
  d_deployed_by :: "string option"
  d_deployed_at :: timestamp

text \<open>
  Modelled from the spec: the column \<^verbatim>\<open>error_message\<close> of \<^verbatim>\<open>usage_events\<close>, which the
  server inserts and selects and \<^verbatim>\<open>sql/001_init.sql\<close> does not declare; the spec lists
  it among the optional fields of a usage event ("optional error message").
\<close>

record usage_event =
  u_id :: nat
  u_app_id :: nat
  u_ts :: timestamp
  u_kind :: string
  u_method :: "string option"
  u_path :: "string option"
  u_status :: "int option"
  u_ip :: "string option"
  u_user_agent :: "string option"
  u_error_message :: "string option"

text \<open>The sequences behind the \<^verbatim>\<open>bigserial\<close> keys hold the last value they gave.\<close>

record database =
  apps :: "app list"
  deployments :: "deployment list"
  usage_events :: "usage_event list"
  apps_id_seq :: nat
  deployments_id_seq :: nat
  usage_events_id_seq :: nat

section \<open>Relational operators\<close>

text \<open>
  \<^verbatim>\<open>select distinct on (k)\<close> keeps the first row, in the order of the input, for each
  value of the key.
\<close>

fun distinct_on :: "('a \<Rightarrow> 'k) \<Rightarrow> 'a list \<Rightarrow> 'a list" where
  "distinct_on k [] = []"
| "distinct_on k (x # xs) = x # distinct_on k (filter (\<lambda>y. k y \<noteq> k x) xs)"

text \<open>\<^verbatim>\<open>select k, count(*) ... group by k\<close>: one row for each value of the key.\<close>

definition group_count :: "('a \<Rightarrow> 'k) \<Rightarrow> 'a list \<Rightarrow> ('k \<times> nat) list" where
  "group_count k xs = map (\<lambda>v. (v, length (filter (\<lambda>x. k x = v) xs))) (remdups (map k xs))"

text \<open>
  \<^verbatim>\<open>l left join r on c\<close>: every row of \<open>l\<close> with each row of \<open>r\<close> that matches it,
  or once with NULLs when none does; \<^verbatim>\<open>l join r on c\<close> drops the rows without a match.
\<close>

definition left_join :: "'a list \<Rightarrow> 'b list \<Rightarrow> ('a \<Rightarrow> 'b \<Rightarrow> bool) \<Rightarrow> ('a \<times> 'b option) list" where
  "left_join l r c =
     concat (map (\<lambda>x. case filter (c x) r of
                         [] \<Rightarrow> [(x, None)]
                       | ms \<Rightarrow> map (\<lambda>y. (x, Some y)) ms) l)"

definition inner_join :: "'a list \<Rightarrow> 'b list \<Rightarrow> ('a \<Rightarrow> 'b \<Rightarrow> bool) \<Rightarrow> ('a \<times> 'b) list" where
  "inner_join l r c = concat (map (\<lambda>x. map (\<lambda>y. (x, y)) (filter (c x) r)) l)"

text \<open>
  The cast \<^verbatim>\<open>count(*)::int\<close> of every row of a result: the statement fails when a count
  does not fit four bytes.
\<close>

definition cast_counts :: "('k \<times> nat) list \<Rightarrow> db_error + ('k \<times> nat) list" where
  "cast_counts rows =
     (if list_all (\<lambda>r. snd r \<le> int4_max) rows then Inr rows else Inl NumericValueOutOfRange)"

section \<open>The statements of the server\<close>

text \<open>
  A statement takes the database to a result, or an error, and a database. The clock
  \<open>now\<close> is the value of \<^verbatim>\<open>now()\<close> when the statement runs.
\<close>

type_synonym 'r statement = "database \<Rightarrow> (db_error + 'r) \<times> database"

text \<open>\<^verbatim>\<open>select 1\<close>\<close>

definition select_1 :: "unit statement" where
  "select_1 d = (Inr (), d)"

text \<open>
  \<^verbatim>\<open>insert into apps (slug, name, repo_url, public_url) values ($1,$2,$3,$4)
  on conflict (slug) do update set name = excluded.name, repo_url = excluded.repo_url,
  public_url = excluded.public_url returning *\<close>.
  The key of the proposed row is drawn from the sequence before the conflict is seen.
\<close>

definition upsert_app :: "timestamp \<Rightarrow> jsval \<Rightarrow> jsval \<Rightarrow> jsval \<Rightarrow> jsval \<Rightarrow> app list statement" where
  "upsert_app now p1 p2 p3 p4 d =
     (let new_id = Suc (apps_id_seq d); d1 = d\<lparr>apps_id_seq := new_id\<rparr> in
      case (prepareValue p1, prepareValue p2) of
        (Some slug, Some name) \<Rightarrow>
          if slug \<in> set (map a_slug (apps d)) then
            let rows = map (\<lambda>a. if a_slug a = slug
                                 then a\<lparr>a_name := name, a_repo_url := prepareValue p3,
                                        a_public_url := prepareValue p4\<rparr>
                                 else a) (apps d)
            in (Inr (filter (\<lambda>a. a_slug a = slug) rows), d1\<lparr>apps := rows\<rparr>)
          else
            let row = \<lparr>a_id = new_id, a_slug = slug, a_name = name,
                       a_repo_url = prepareValue p3, a_public_url = prepareValue p4,
                       a_created_at = now\<rparr>
            in (Inr [row], d1\<lparr>apps := apps d @ [row]\<rparr>)
      | _ \<Rightarrow> (Inl NotNullViolation, d1))"

text \<open>\<^verbatim>\<open>select id from apps where slug=$1\<close>\<close>

definition select_app_id :: "jsval \<Rightarrow> nat list statement" where
  "select_app_id p1 d =
     (case prepareValue p1 of
        None \<Rightarrow> (Inr [], d)
      | Some slug \<Rightarrow> (Inr (map a_id (filter (\<lambda>a. a_slug a = slug) (apps d))), d))"

text \<open>
  \<^verbatim>\<open>insert into deployments (app_id, environment, version, note, deployed_by)
  values ($1,$2,$3,$4,$5) returning *\<close>. The first parameter is a key that
  \<open>select_app_id\<close> returned.
\<close>

definition insert_deployment ::
  "timestamp \<Rightarrow> nat \<Rightarrow> jsval \<Rightarrow> jsval \<Rightarrow> jsval \<Rightarrow> jsval \<Rightarrow> deployment list statement" where
  "insert_deployment now p1 p2 p3 p4 p5 d =
     (let new_id = Suc (deployments_id_seq d); d1 = d\<lparr>deployments_id_seq := new_id\<rparr> in
      case prepareValue p2 of
        None \<Rightarrow> (Inl NotNullViolation, d1)
      | Some environment \<Rightarrow>
          if p1 \<notin> set (map a_id (apps d)) then (Inl ForeignKeyViolation, d1)
          else
            let row = \<lparr>d_id = new_id, d_app_id = p1, d_environment = environment,
                       d_version = prepareValue p3, d_note = prepareValue p4,
                       d_deployed_by = prepareValue p5, d_deployed_at = now\<rparr>
            in (Inr [row], d1\<lparr>deployments := deployments d @ [row]\<rparr>))"

text \<open>
  \<^verbatim>\<open>insert into usage_events (app_id, kind, method, path, status, ip, user_agent,
  error_message) values ($1,$2,$3,$4,$5,$6,$7,$8) returning *\<close>. A parameter that its
  column's type rejects fails the statement before a key is drawn.
\<close>

definition insert_usage_event ::
  "postgres \<Rightarrow> timestamp \<Rightarrow> nat \<Rightarrow> jsval \<Rightarrow> jsval \<Rightarrow> jsval \<Rightarrow> jsval \<Rightarrow> jsval \<Rightarrow> jsval \<Rightarrow> jsval
     \<Rightarrow> usage_event list statement" where
  "insert_usage_event pg now p1 p2 p3 p4 p5 p6 p7 p8 d =
     (case as_int4 pg p5 of
        Inl e \<Rightarrow> (Inl e, d)
      | Inr status \<Rightarrow>
         (case as_inet pg p6 of
            Inl e \<Rightarrow> (Inl e, d)
          | Inr ip \<Rightarrow>
             (let new_id = Suc (usage_events_id_seq d); d1 = d\<lparr>usage_events_id_seq := new_id\<rparr> in
              case prepareValue p2 of
                None \<Rightarrow> (Inl NotNullViolation, d1)
              | Some kind \<Rightarrow>
                  if p1 \<notin> set (map a_id (apps d)) then (Inl ForeignKeyViolation, d1)
                  else
                    let row = \<lparr>u_id = new_id, u_app_id = p1, u_ts = now, u_kind = kind,
                               u_method = prepareValue p3, u_path = prepareValue p4,
                               u_status = status, u_ip = ip,
                               u_user_agent = prepareValue p7,
                               u_error_message = prepareValue p8\<rparr>
                    in (Inr [row], d1\<lparr>usage_events := usage_events d @ [row]\<rparr>))))"

text \<open>
  The overview: \<^verbatim>\<open>last_deploy\<close> is
  \<^verbatim>\<open>select distinct on (d.app_id) ... from deployments d order by d.app_id, d.deployed_at desc\<close>,
  \<^verbatim>\<open>usage_24h\<close> is \<^verbatim>\<open>select app_id, count(*)::int as hits_24h from usage_events
  where ts >= now() - interval '24 hours' group by app_id\<close>, and the statement selects
  from \<^verbatim>\<open>apps a left join last_deploy ld on ld.app_id = a.id left join usage_24h u on
  u.app_id = a.id order by a.name asc\<close>, with \<^verbatim>\<open>coalesce(u.hits_24h, 0)\<close>.
  Among deployments of one application with the same timestamp PostgreSQL may keep any;
  the stable sort keeps the one inserted first. Names are ordered character by character;
  the collation of the database may order them otherwise.
\<close>

record overview_row =
  o_slug :: string
  o_name :: string
  o_public_url :: "string option"
  o_repo_url :: "string option"
  o_deployed_at :: "timestamp option"
  o_environment :: "string option"
  o_version :: "string option"
  o_note :: "string option"
  o_hits_24h :: nat

definition last_deploy :: "deployment list \<Rightarrow> deployment list" where
  "last_deploy ds = distinct_on d_app_id (sort_key (\<lambda>d. (d_app_id d, - d_deployed_at d)) ds)"

definition usage_24h :: "timestamp \<Rightarrow> usage_event list \<Rightarrow> db_error + (nat \<times> nat) list" where
  "usage_24h now us =
     cast_counts (group_count u_app_id (filter (\<lambda>e. now - 24 * hour \<le> u_ts e) us))"

definition overview_select :: "(app \<times> deployment option) \<times> (nat \<times> nat) option \<Rightarrow> overview_row" where
  "overview_select r =
     (case r of ((a, ld), u) \<Rightarrow>
        \<lparr>o_slug = a_slug a, o_name = a_name a, o_public_url = a_public_url a,
         o_repo_url = a_repo_url a,
         o_deployed_at = map_option d_deployed_at ld,
         o_environment = map_option d_environment ld,
         o_version = Option.bind ld d_version,
         o_note = Option.bind ld d_note,
         o_hits_24h = (case u of None \<Rightarrow> 0 | Some h \<Rightarrow> snd h)\<rparr>)"

definition overview_query :: "timestamp \<Rightarrow> overview_row list statement" where
  "overview_query now d =
     (case usage_24h now (usage_events d) of
        Inl e \<Rightarrow> (Inl e, d)
      | Inr u \<Rightarrow>
          (Inr (sort_key o_name (map overview_select
             (left_join
                (left_join (apps d) (last_deploy (deployments d)) (\<lambda>a ld. d_app_id ld = a_id a))
                u (\<lambda>r h. fst h = a_id (fst r))))), d))"

text \<open>
  The three statements of the analytics. \<^verbatim>\<open>dailyQ\<close>: \<^verbatim>\<open>select date_trunc('day', ts)::date
  as date, count(*)::int as total from usage_events where ts >= now() - interval '7 days'
  group by date_trunc('day', ts) order by date asc\<close>; a date is a number of days.
\<close>

definition dailyQ :: "timestamp \<Rightarrow> (int \<times> nat) list statement" where
  "dailyQ now d =
     (case cast_counts (group_count (\<lambda>e. u_ts e div day)
                          (filter (\<lambda>e. now - 7 * day \<le> u_ts e) (usage_events d))) of
        Inl e \<Rightarrow> (Inl e, d)
      | Inr rows \<Rightarrow> (Inr (sort_key fst rows), d))"

text \<open>
  \<^verbatim>\<open>byAppQ\<close>: \<^verbatim>\<open>select a.name as app_name, count(*)::int as total from usage_events ue
  join apps a on a.id = ue.app_id where ue.ts >= now() - interval '7 days'
  group by a.name order by total desc limit 10\<close>
\<close>

definition byAppQ :: "timestamp \<Rightarrow> (string \<times> nat) list statement" where
  "byAppQ now d =
     (case cast_counts (group_count (\<lambda>r. a_name (snd r))
                          (filter (\<lambda>r. now - 7 * day \<le> u_ts (fst r))
                             (inner_join (usage_events d) (apps d)
                                (\<lambda>ue a. a_id a = u_app_id ue)))) of
        Inl e \<Rightarrow> (Inl e, d)
      | Inr rows \<Rightarrow> (Inr (take 10 (sort_key (\<lambda>r. - int (snd r)) rows)), d))"

text \<open>
  \<^verbatim>\<open>recentDeploysQ\<close>: \<^verbatim>\<open>select count(*)::int as total from deployments
  where deployed_at >= now() - interval '7 days'\<close>
\<close>

definition recentDeploysQ :: "timestamp \<Rightarrow> nat list statement" where
  "recentDeploysQ now d =
     (case cast_counts [((), length (filter (\<lambda>x. now - 7 * day \<le> d_deployed_at x)
                                        (deployments d)))] of
        Inl e \<Rightarrow> (Inl e, d)
      | Inr rows \<Rightarrow> (Inr (map snd rows), d))"

text \<open>
  The deployment history: \<^verbatim>\<open>select d.deployed_at, d.environment, d.version, d.note,
  d.deployed_by, a.name as app_name, a.slug as app_slug from deployments d
  join apps a on a.id = d.app_id order by d.deployed_at desc limit 50\<close>
\<close>

record history_row =
  h_deployed_at :: timestamp
  h_environment :: string
  h_version :: "string option"
  h_note :: "string option"
  h_deployed_by :: "string option"
  h_app_name :: string
  h_app_slug :: string

definition history_query :: "history_row list statement" where
  "history_query d =
     (Inr (take 50 (sort_key (\<lambda>r. - h_deployed_at r)
        (map (\<lambda>r. case r of (x, a) \<Rightarrow>
                \<lparr>h_deployed_at = d_deployed_at x, h_environment = d_environment x,
                 h_version = d_version x, h_note = d_note x,
                 h_deployed_by = d_deployed_by x,
                 h_app_name = a_name a, h_app_slug = a_slug a\<rparr>)
           (inner_join (deployments d) (apps d) (\<lambda>x a. a_id a = d_app_id x))))), d)"

text \<open>
  The routes: \<^verbatim>\<open>select path, method, count(*)::int as total_hits,
  count(*) filter (where status >= 400)::int as errors,
  round(avg(status)::numeric, 1) as avg_status from usage_events
  where ts >= now() - interval '7 days' and path is not null
  group by path, method order by total_hits desc limit 50\<close>.
  The average is kept in tenths, rounded half away from zero as \<^verbatim>\<open>round\<close> does on
  \<^verbatim>\<open>numeric\<close>; it is NULL for a group whose statuses are all NULL.
\<close>

record route_row =
  r_path :: "string option"
  r_method :: "string option"
  r_total_hits :: nat
  r_errors :: nat
  r_avg_status :: "int option"

definition is_error_status :: "int option \<Rightarrow> bool" where
  "is_error_status st = (case st of None \<Rightarrow> False | Some n \<Rightarrow> 400 \<le> n)"

definition round_tenths :: "int \<Rightarrow> nat \<Rightarrow> int" where
  "round_tenths sm n =
     (let q = (20 * \<bar>sm\<bar> + int n) div (2 * int n) in if sm < 0 then - q else q)"

definition avg_status :: "usage_event list \<Rightarrow> int option" where
  "avg_status es =
     (let sts = concat (map (\<lambda>e. case u_status e of None \<Rightarrow> [] | Some n \<Rightarrow> [n]) es)
      in if sts = [] then None else Some (round_tenths (sum_list sts) (length sts)))"

definition routes_query :: "timestamp \<Rightarrow> route_row list statement" where
  "routes_query now d =
     (let es = filter (\<lambda>e. now - 7 * day \<le> u_ts e \<and> u_path e \<noteq> None) (usage_events d);
          rows = map (\<lambda>k. let g = filter (\<lambda>e. (u_path e, u_method e) = k) es in
                        \<lparr>r_path = fst k, r_method = snd k, r_total_hits = length g,
                         r_errors = length (filter (\<lambda>e. is_error_status (u_status e)) g),
                         r_avg_status = avg_status g\<rparr>)
                   (remdups (map (\<lambda>e. (u_path e, u_method e)) es))
      in if list_all (\<lambda>r. r_total_hits r \<le> int4_max) rows
         then (Inr (take 50 (sort_key (\<lambda>r. - int (r_total_hits r)) rows)), d)
         else (Inl NumericValueOutOfRange, d))"

text \<open>
  The error feed: \<^verbatim>\<open>select a.name as app_name, ue.path, ue.method, ue.status,
  ue.error_message, ue.ts, ue.ip::text from usage_events ue join apps a on a.id = ue.app_id
  where ue.status >= 400 and ue.ts >= now() - interval '24 hours'
  order by ue.ts desc limit 100\<close>
\<close>

record error_row =
  e_app_name :: string
  e_path :: "string option"
  e_method :: "string option"
  e_status :: "int option"
  e_error_message :: "string option"
  e_ts :: timestamp
  e_ip :: "string option"

definition errors_query :: "timestamp \<Rightarrow> error_row list statement" where
  "errors_query now d =
     (Inr (take 100 (sort_key (\<lambda>r. - e_ts r)
        (map (\<lambda>r. case r of (ue, a) \<Rightarrow>
                \<lparr>e_app_name = a_name a, e_path = u_path ue, e_method = u_method ue,
                 e_status = u_status ue, e_error_message = u_error_message ue,
                 e_ts = u_ts ue, e_ip = u_ip ue\<rparr>)
           (filter (\<lambda>r. is_error_status (u_status (fst r)) \<and> now - 24 * hour \<le> u_ts (fst r))
              (inner_join (usage_events d) (apps d) (\<lambda>ue a. a_id a = u_app_id ue)))))), d)"

text \<open>
  The pruning: \<^verbatim>\<open>delete from usage_events where ts < now() - interval '1 day' * $1
  returning id\<close>. With a NULL parameter the condition is NULL for every row, and no row
  is deleted.
\<close>

definition prune_query :: "postgres \<Rightarrow> timestamp \<Rightarrow> jsval \<Rightarrow> nat list statement" where
  "prune_query pg now p1 d =
     (case as_interval pg p1 of
        Inl e \<Rightarrow> (Inl e, d)
      | Inr None \<Rightarrow> (Inr [], d)
      | Inr (Some i) \<Rightarrow>
          (Inr (map u_id (filter (\<lambda>e. u_ts e < now - i) (usage_events d))),
           d\<lparr>usage_events := filter (\<lambda>e. \<not> u_ts e < now - i) (usage_events d)\<rparr>))"

text \<open>
  The statistics: \<^verbatim>\<open>select (select count(*) from apps) as total_apps,
  (select count(*) from usage_events where ts >= now() - interval '24 hours') as hits_24h,
  (select count(*) from usage_events where ts >= now() - interval '24 hours'
  and status >= 400) as errors_24h,
  (select count(*) from deployments where deployed_at >= now() - interval '7 days')
  as deploys_7d\<close>
\<close>

record stats_row =
  total_apps :: nat
  hits_24h :: nat
  errors_24h :: nat
  deploys_7d :: nat

definition stats_query :: "timestamp \<Rightarrow> stats_row list statement" where
  "stats_query now d =
     (Inr [\<lparr>total_apps = length (apps d),
            hits_24h = length (filter (\<lambda>e. now - 24 * hour \<le> u_ts e) (usage_events d)),
            errors_24h = length (filter (\<lambda>e. now - 24 * hour \<le> u_ts e
                                             \<and> is_error_status (u_status e)) (usage_events d)),
            deploys_7d = length (filter (\<lambda>x. now - 7 * day \<le> d_deployed_at x)
                                   (deployments d))\<rparr>], d)"

section \<open>The server\<close>

text \<open>
  A response is a status and a JSON body. The health report's clock, uptime, latency and
  memory figures, which come from the runtime, are left out of its body. A handler whose
  statement fails throws: \<open>Thrown\<close>.
\<close>

datatype body =
    Error string
  | ErrorRetryAfter string nat
  | Healthy
  | Unhealthy db_error
  | DbConnected
  | DbFailed db_error
  | Undefined
  | AppRow app
  | DeploymentRow deployment
  | UsageEventRow usage_event
  | OverviewRows "overview_row list"
  | AnalyticsReport "(int \<times> nat) list" "(string \<times> nat) list" nat
  | HistoryRows "history_row list"
  | RouteRows "route_row list"
  | ErrorRows "error_row list"
  | PruneReport nat jsval timestamp
  | StatsReport stats_row

datatype reply = Reply nat body | Thrown db_error

datatype endpoint =
    GET_health
  | POST_api_apps
  | POST_api_deployments
  | POST_api_usage
  | GET_api_dashboard_overview
  | GET_api_dashboard_analytics
  | GET_api_dashboard_deployments
  | GET_api_dashboard_routes
  | GET_api_dashboard_errors
  | POST_api_admin_prune
  | GET_api_stats

text \<open>
  A request to one of the routes: the value of its \<^verbatim>\<open>Authorization\<close> header, if it has
  one, the address \<^verbatim>\<open>req.ip\<close> and the parsed body \<^verbatim>\<open>req.body\<close>, if there is one.
  The model begins where Express hands the request to the route: a request whose body
  \<^verbatim>\<open>express.json\<close> rejects (malformed, or above 200kb) is answered before any route
  and is not a \<open>request\<close>.
\<close>

record request =
  endpoint :: endpoint
  authorization :: "string option"
  ip :: string
  body :: "json_object option"

text \<open>
  The state of the process and of what it talks to: the database and whether it can be
  reached, the number of calls of \<^verbatim>\<open>pool.query\<close> so far, and the limiter's count of
  requests for each address in the current window.
\<close>

record server =
  db :: database
  connected :: bool
  queries :: nat
  hits :: "string \<Rightarrow> nat"

type_synonym handler = "server \<Rightarrow> reply \<times> server"

definition pool_query :: "'r statement \<Rightarrow> server \<Rightarrow> (db_error + 'r) \<times> server" where
  "pool_query q s =
     (let s1 = s\<lparr>queries := Suc (queries s)\<rparr> in
      if connected s then (case q (db s) of (r, d) \<Rightarrow> (r, s1\<lparr>db := d\<rparr>))
      else (Inl ConnectionFailed, s1))"

text \<open>\<^verbatim>\<open>await\<close> in a handler without \<^verbatim>\<open>try\<close>: a rejection leaves the handler.\<close>

definition await :: "(db_error + 'r) \<times> server \<Rightarrow> ('r \<Rightarrow> handler) \<Rightarrow> reply \<times> server" where
  "await m k = (case m of (Inl e, s) \<Rightarrow> (Thrown e, s) | (Inr r, s) \<Rightarrow> k r s)"

text \<open>\<^verbatim>\<open>res.json(rows[0])\<close>\<close>

definition json_first :: "('r \<Rightarrow> body) \<Rightarrow> 'r list \<Rightarrow> reply" where
  "json_first f rows = Reply 200 (case rows of [] \<Rightarrow> Undefined | r # _ \<Rightarrow> f r)"

subsection \<open>Middleware\<close>

text \<open>
  \<^verbatim>\<open>req.get("authorization")?.replace(/^Bearer\s+/i, "")\<close>. A header value is a string
  of Latin-1 characters, so the characters that \<^verbatim>\<open>\s\<close> matches are the six ASCII
  white-space characters and the no-break space.
\<close>

definition is_space :: "char \<Rightarrow> bool" where
  "is_space c = (c \<in> set [CHR '' '', CHR 0x09, CHR 0x0A, CHR 0x0B, CHR 0x0C, CHR 0x0D, CHR 0xA0])"

definition ascii_lower :: "char \<Rightarrow> char" where
  "ascii_lower c =
     (case map_of (zip ''ABCDEFGHIJKLMNOPQRSTUVWXYZ'' ''abcdefghijklmnopqrstuvwxyz'') c of
        None \<Rightarrow> c
      | Some l \<Rightarrow> l)"

definition strip_bearer :: "string \<Rightarrow> string" where
  "strip_bearer h =
     (if map ascii_lower (take 6 h) = ''bearer''
         \<and> (case drop 6 h of [] \<Rightarrow> False | c # _ \<Rightarrow> is_space c)
      then dropWhile is_space (drop 6 h)
      else h)"

text \<open>
  \<open>requireToken\<close> answers (\<open>Some\<close>) or calls \<^verbatim>\<open>next()\<close> (\<open>None\<close>). The first argument
  is \<^verbatim>\<open>process.env.DASHBOARD_TOKEN\<close>.
\<close>

definition requireToken :: "string option \<Rightarrow> string option \<Rightarrow> reply option" where
  "requireToken expected header =
     (let got = map_option strip_bearer header in
      if expected = None \<or> expected = Some [] then Some (Reply 500 (Error ''server_not_configured''))
      else if got \<noteq> expected then Some (Reply 401 (Error ''unauthorized''))
      else None)"

text \<open>
  Modelled from the spec: the middleware that \<^verbatim>\<open>rateLimit\<close> of the package
  \<^verbatim>\<open>express-rate-limit\<close> builds, which is not part of the repository. The spec calls it
  "a simple fixed-window per-source-IP counter" that answers "too-many-requests with a
  retry hint"; the options in the source give the window (one minute), the number of
  requests allowed in it (\<^verbatim>\<open>max: 100\<close>) and the body
  (\<^verbatim>\<open>{ error: "rate_limit_exceeded", retry_after: 60 }\<close>). Every request is counted,
  and one whose count exceeds the maximum is answered with status 429. When the
  window of an address ends, its count starts again from zero.
\<close>

definition usageLimiter :: "string \<Rightarrow> server \<Rightarrow> reply option \<times> server" where
  "usageLimiter key s =
     (let n = Suc (hits s key); s1 = s\<lparr>hits := (hits s)(key := n)\<rparr> in
      if 100 < n then (Some (Reply 429 (ErrorRetryAfter ''rate_limit_exceeded'' 60)), s1)
      else (None, s1))"

definition window_end :: "string \<Rightarrow> server \<Rightarrow> server" where
  "window_end key s = s\<lparr>hits := (hits s)(key := 0)\<rparr>"

definition protected :: "string option \<Rightarrow> request \<Rightarrow> handler \<Rightarrow> handler" where
  "protected token req h s =
     (case requireToken token (authorization req) of Some r \<Rightarrow> (r, s) | None \<Rightarrow> h s)"

definition limited :: "request \<Rightarrow> handler \<Rightarrow> handler" where
  "limited req h s =
     (case usageLimiter (ip req) s of (Some r, s1) \<Rightarrow> (r, s1) | (None, s1) \<Rightarrow> h s1)"

subsection \<open>Handlers\<close>

definition health :: handler where
  "health s =
     (case pool_query select_1 s of
        (Inl e, s1) \<Rightarrow> (Reply 503 (Unhealthy e), s1)
      | (Inr u, s1) \<Rightarrow> (Reply 200 Healthy, s1))"

definition api_apps :: "timestamp \<Rightarrow> json_object option \<Rightarrow> handler" where
  "api_apps now b s =
     (let obj = body_or_empty b;
          slug = field obj ''slug''; name = field obj ''name'';
          repo_url = field obj ''repo_url''; public_url = field obj ''public_url''
      in if \<not> truthy slug \<or> \<not> truthy name
         then (Reply 400 (Error ''slug_and_name_required''), s)
         else await (pool_query (upsert_app now slug name (or_null repo_url) (or_null public_url)) s)
                (\<lambda>rows s1. (json_first AppRow rows, s1)))"

text \<open>
  The driver returns a \<^verbatim>\<open>bigint\<close> key as a string of digits, which is truthy, so
  \<^verbatim>\<open>!appId\<close> holds exactly when the statement returned no row.
\<close>

definition api_deployments :: "timestamp \<Rightarrow> json_object option \<Rightarrow> handler" where
  "api_deployments now b s =
     (let obj = body_or_empty b;
          app_slug = field obj ''app_slug'';
          environment = default_to (JStr ''prod'') (field obj ''environment'');
          version = field obj ''version''; note = field obj ''note'';
          deployed_by = field obj ''deployed_by''
      in if \<not> truthy app_slug then (Reply 400 (Error ''app_slug_required''), s)
         else await (pool_query (select_app_id app_slug) s)
                (\<lambda>ids s1. case ids of
                    [] \<Rightarrow> (Reply 404 (Error ''app_not_found''), s1)
                  | appId # _ \<Rightarrow>
                      await (pool_query (insert_deployment now appId environment
                                (or_null version) (or_null note) (or_null deployed_by)) s1)
                        (\<lambda>rows s2. (json_first DeploymentRow rows, s2))))"

definition api_usage :: "postgres \<Rightarrow> timestamp \<Rightarrow> json_object option \<Rightarrow> handler" where
  "api_usage pg now b s =
     (let obj = body_or_empty b;
          app_slug = field obj ''app_slug'';
          kind = default_to (JStr ''request'') (field obj ''kind'');
          method = field obj ''method''; path = field obj ''path'';
          status = field obj ''status''; ip = field obj ''ip'';
          user_agent = field obj ''user_agent''; error_message = field obj ''error_message''
      in if \<not> truthy app_slug then (Reply 400 (Error ''app_slug_required''), s)
         else await (pool_query (select_app_id app_slug) s)
                (\<lambda>ids s1. case ids of
                    [] \<Rightarrow> (Reply 404 (Error ''app_not_found''), s1)
                  | appId # _ \<Rightarrow>
                      await (pool_query (insert_usage_event pg now appId kind
                                (or_null method) (or_null path) (or_null status) (or_null ip)
                                (or_null user_agent) (or_null error_message)) s1)
                        (\<lambda>rows s2. (json_first UsageEventRow rows, s2))))"

definition dashboard_overview :: "timestamp \<Rightarrow> handler" where
  "dashboard_overview now s =
     await (pool_query (overview_query now) s) (\<lambda>rows s1. (Reply 200 (OverviewRows rows), s1))"

text \<open>
  \<^verbatim>\<open>Promise.all\<close> of the three statements: all three are issued, and the handler
  throws when one of them fails. \<^verbatim>\<open>recentDeploys.rows[0]?.total || 0\<close> is the count.
\<close>

definition dashboard_analytics :: "timestamp \<Rightarrow> handler" where
  "dashboard_analytics now s =
     (case pool_query (dailyQ now) s of (daily, s1) \<Rightarrow>
      case pool_query (byAppQ now) s1 of (byApp, s2) \<Rightarrow>
      case pool_query (recentDeploysQ now) s2 of (recentDeploys, s3) \<Rightarrow>
        (case daily of Inl e \<Rightarrow> (Thrown e, s3) | Inr daily_rows \<Rightarrow>
         case byApp of Inl e \<Rightarrow> (Thrown e, s3) | Inr by_app_rows \<Rightarrow>
         case recentDeploys of Inl e \<Rightarrow> (Thrown e, s3) | Inr rows \<Rightarrow>
           (Reply 200 (AnalyticsReport daily_rows by_app_rows
                         (case rows of [] \<Rightarrow> 0 | n # _ \<Rightarrow> n)), s3)))"

definition dashboard_deployments :: handler where
  "dashboard_deployments s =
     await (pool_query history_query s) (\<lambda>rows s1. (Reply 200 (HistoryRows rows), s1))"

definition dashboard_routes :: "timestamp \<Rightarrow> handler" where
  "dashboard_routes now s =
     await (pool_query (routes_query now) s) (\<lambda>rows s1. (Reply 200 (RouteRows rows), s1))"

definition dashboard_errors :: "timestamp \<Rightarrow> handler" where
  "dashboard_errors now s =
     await (pool_query (errors_query now) s) (\<lambda>rows s1. (Reply 200 (ErrorRows rows), s1))"

text \<open>\<^verbatim>\<open>result.rowCount\<close> is the number of rows deleted.\<close>

definition admin_prune :: "postgres \<Rightarrow> timestamp \<Rightarrow> json_object option \<Rightarrow> handler" where
  "admin_prune pg now b s =
     (let obj = body_or_empty b;
          days = default_to (JNum 90) (field obj ''days'')
      in await (pool_query (prune_query pg now days) s)
           (\<lambda>ids s1. (Reply 200 (PruneReport (length ids) days now), s1)))"

definition api_stats :: "timestamp \<Rightarrow> handler" where
  "api_stats now s =
     await (pool_query (stats_query now) s) (\<lambda>rows s1. (json_first StatsReport rows, s1))"

subsection \<open>Routes\<close>

text \<open>
  The routes with their middleware, in the order of \<^verbatim>\<open>app.get\<close> and \<^verbatim>\<open>app.post\<close>.
  (The second limiter of the source, \<^verbatim>\<open>apiLimiter\<close>, is not mounted on any route.)
\<close>

definition handle :: "postgres \<Rightarrow> string option \<Rightarrow> timestamp \<Rightarrow> request \<Rightarrow> handler" where
  "handle pg token now req =
     (case endpoint req of
        GET_health \<Rightarrow> health
      | POST_api_apps \<Rightarrow> protected token req (api_apps now (body req))
      | POST_api_deployments \<Rightarrow> protected token req (api_deployments now (body req))
      | POST_api_usage \<Rightarrow> limited req (protected token req (api_usage pg now (body req)))
      | GET_api_dashboard_overview \<Rightarrow> protected token req (dashboard_overview now)
      | GET_api_dashboard_analytics \<Rightarrow> protected token req (dashboard_analytics now)
      | GET_api_dashboard_deployments \<Rightarrow> protected token req dashboard_deployments
      | GET_api_dashboard_routes \<Rightarrow> protected token req (dashboard_routes now)
      | GET_api_dashboard_errors \<Rightarrow> protected token req (dashboard_errors now)
      | POST_api_admin_prune \<Rightarrow> protected token req (admin_prune pg now (body req))
      | GET_api_stats \<Rightarrow> api_stats now)"

subsection \<open>The first version of the server\<close>

text \<open>
  \<^verbatim>\<open>server/index.js\<close> is the server before rate limiting, pruning, statistics, the
  routes' and the errors' views were added. Its \<open>requireToken\<close> and its handlers for
  \<^verbatim>\<open>/api/apps\<close>, \<^verbatim>\<open>/api/deployments\<close> and the three dashboard views it has are the same
  text. Its \<^verbatim>\<open>/health\<close> answers \<^verbatim>\<open>{ok:true, db:"connected"}\<close>, or 500 when the database
  cannot be reached; its \<^verbatim>\<open>/api/usage\<close> has no limiter and no \<^verbatim>\<open>error_message\<close>, which
  leaves that column NULL. The routes it does not have are \<open>None\<close>.
\<close>

definition health_v1 :: handler where
  "health_v1 s =
     (case pool_query select_1 s of
        (Inl e, s1) \<Rightarrow> (Reply 500 (DbFailed e), s1)
      | (Inr u, s1) \<Rightarrow> (Reply 200 DbConnected, s1))"

definition api_usage_v1 :: "postgres \<Rightarrow> timestamp \<Rightarrow> json_object option \<Rightarrow> handler" where
  "api_usage_v1 pg now b s =
     (let obj = body_or_empty b;
          app_slug = field obj ''app_slug'';
          kind = default_to (JStr ''request'') (field obj ''kind'');
          method = field obj ''method''; path = field obj ''path'';
          status = field obj ''status''; ip = field obj ''ip'';
          user_agent = field obj ''user_agent''
      in if \<not> truthy app_slug then (Reply 400 (Error ''app_slug_required''), s)
         else await (pool_query (select_app_id app_slug) s)
                (\<lambda>ids s1. case ids of
                    [] \<Rightarrow> (Reply 404 (Error ''app_not_found''), s1)
                  | appId # _ \<Rightarrow>
                      await (pool_query (insert_usage_event pg now appId kind
                                (or_null method) (or_null path) (or_null status) (or_null ip)
                                (or_null user_agent) JNull) s1)
                        (\<lambda>rows s2. (json_first UsageEventRow rows, s2))))"

definition handle_v1 :: "postgres \<Rightarrow> string option \<Rightarrow> timestamp \<Rightarrow> request \<Rightarrow> handler option" where
  "handle_v1 pg token now req =
     (case endpoint req of
        GET_health \<Rightarrow> Some health_v1
      | POST_api_apps \<Rightarrow> Some (protected token req (api_apps now (body req)))
      | POST_api_deployments \<Rightarrow> Some (protected token req (api_deployments now (body req)))
      | POST_api_usage \<Rightarrow> Some (protected token req (api_usage_v1 pg now (body req)))
      | GET_api_dashboard_overview \<Rightarrow> Some (protected token req (dashboard_overview now))
      | GET_api_dashboard_analytics \<Rightarrow> Some (protected token req (dashboard_analytics now))
      | GET_api_dashboard_deployments \<Rightarrow> Some (protected token req dashboard_deployments)
      | GET_api_dashboard_routes \<Rightarrow> None
      | GET_api_dashboard_errors \<Rightarrow> None
      | POST_api_admin_prune \<Rightarrow> None
      | GET_api_stats \<Rightarrow> None)"

section \<open>Sequences of requests and the constraints of the schema\<close>

text \<open>The server answers the requests one after the other, each at its own time.\<close>

fun serve :: "postgres \<Rightarrow> string option \<Rightarrow> (timestamp \<times> request) list \<Rightarrow> server \<Rightarrow> server" where
  "serve pg token [] s = s"
| "serve pg token (r # rs) s = serve pg token rs (snd (handle pg token (fst r) (snd r) s))"

text \<open>
  What \<^verbatim>\<open>sql/001_init.sql\<close> declares and the statements rely on: the primary key and
  the unique slug of \<^verbatim>\<open>apps\<close>, keys that come from the sequence, and the references
  from the two logs to \<^verbatim>\<open>apps\<close>.
\<close>

definition constraints :: "database \<Rightarrow> bool" where
  "constraints d \<longleftrightarrow>
     distinct (map a_id (apps d)) \<and> distinct (map a_slug (apps d))
     \<and> (\<forall>a \<in> set (apps d). a_id a \<le> apps_id_seq d)
     \<and> (\<forall>x \<in> set (deployments d). d_app_id x \<in> set (map a_id (apps d)))
     \<and> (\<forall>e \<in> set (usage_events d). u_app_id e \<in> set (map a_id (apps d)))"

section \<open>Example states and requests\<close>

definition example_postgres :: postgres where
  "example_postgres =
     \<lparr>int4in = (\<lambda>t. None), inet_in = (\<lambda>t. Some t), interval_in = (\<lambda>t. None)\<rparr>"

definition empty_database :: database where
  "empty_database =
     \<lparr>apps = [], deployments = [], usage_events = [],
      apps_id_seq = 0, deployments_id_seq = 0, usage_events_id_seq = 0\<rparr>"

definition fresh_server :: server where
  "fresh_server = \<lparr>db = empty_database, connected = True, queries = 0, hits = (\<lambda>k. 0)\<rparr>"

definition exhausted_server :: server where
  "exhausted_server = fresh_server\<lparr>hits := (\<lambda>k. 100)\<rparr>"

definition unconfigured_usage_request :: request where
  "unconfigured_usage_request =
     \<lparr>endpoint = POST_api_usage, authorization = None, ip = ''10.0.0.1'', body = None\<rparr>"

definition wrong_token_request :: request where
  "wrong_token_request =
     \<lparr>endpoint = POST_api_apps, authorization = Some ''Bearer guess'', ip = ''10.0.0.1'',
      body = None\<rparr>"

definition valid_usage_request :: request where
  "valid_usage_request =
     \<lparr>endpoint = POST_api_usage, authorization = Some ''Bearer secret'', ip = ''10.0.0.1'',
      body = Some [''app_slug'' \<mapsto> JStr ''blog'']\<rparr>"

definition anonymous_request :: "endpoint \<Rightarrow> request" where
  "anonymous_request e = \<lparr>endpoint = e, authorization = None, ip = ''10.0.0.1'', body = None\<rparr>"

definition blog_app :: app where
  "blog_app = \<lparr>a_id = 1, a_slug = ''blog'', a_name = ''Blog'', a_repo_url = None,
                a_public_url = None, a_created_at = 0\<rparr>"

definition blog_server :: server where
  "blog_server = fresh_server\<lparr>db := empty_database\<lparr>apps := [blog_app], apps_id_seq := 1\<rparr>\<rparr>"

definition unknown_slug_deployment :: request where
  "unknown_slug_deployment =
     \<lparr>endpoint = POST_api_deployments, authorization = Some ''Bearer secret'', ip = ''10.0.0.1'',
      body = Some [''app_slug'' \<mapsto> JStr ''shop'', ''version'' \<mapsto> JStr ''v1'']\<rparr>"

definition event_at :: "nat \<Rightarrow> timestamp \<Rightarrow> usage_event" where
  "event_at i t = \<lparr>u_id = i, u_app_id = 1, u_ts = t, u_kind = ''request'', u_method = None,
                   u_path = None, u_status = None, u_ip = None, u_user_agent = None,
                   u_error_message = None\<rparr>"



definition register_blog :: "string \<Rightarrow> request" where
  "register_blog name =
     \<lparr>endpoint = POST_api_apps, authorization = Some ''Bearer secret'', ip = ''10.0.0.1'',
      body = Some [''slug'' \<mapsto> JStr ''blog'', ''name'' \<mapsto> JStr name]\<rparr>"






definition shop_app :: app where
  "shop_app = \<lparr>a_id = 2, a_slug = ''shop'', a_name = ''Shop'', a_repo_url = None,
                a_public_url = None, a_created_at = 0\<rparr>"

definition deployment_at :: "nat \<Rightarrow> string \<Rightarrow> timestamp \<Rightarrow> deployment" where
  "deployment_at i v t = \<lparr>d_id = i, d_app_id = 1, d_environment = ''prod'', d_version = Some v,
                          d_note = None, d_deployed_by = None, d_deployed_at = t\<rparr>"

definition dashboard_server :: server where
  "dashboard_server =
     fresh_server\<lparr>db := empty_database\<lparr>apps := [shop_app, blog_app], apps_id_seq := 2,
        deployments := [deployment_at 1 ''v1'' 300, deployment_at 2 ''v2'' 301],
        deployments_id_seq := 2,
        usage_events := [event_at 1 100, event_at 2 200, event_at 3 86400000005],
        usage_events_id_seq := 3\<rparr>\<rparr>"

definition dashboard_request :: "endpoint \<Rightarrow> request" where
  "dashboard_request e =
     \<lparr>endpoint = e, authorization = Some ''Bearer secret'', ip = ''10.0.0.1'', body = None\<rparr>"

definition blog_overview :: overview_row where
  "blog_overview =
     \<lparr>o_slug = ''blog'', o_name = ''Blog'', o_public_url = None, o_repo_url = None,
      o_deployed_at = Some 301, o_environment = Some ''prod'', o_version = Some ''v2'',
      o_note = None, o_hits_24h = 2\<rparr>"

definition shop_overview :: overview_row where
  "shop_overview =
     \<lparr>o_slug = ''shop'', o_name = ''Shop'', o_public_url = None, o_repo_url = None,
      o_deployed_at = None, o_environment = None, o_version = None,
      o_note = None, o_hits_24h = 0\<rparr>"

definition dashboard_daily :: "(int \<times> nat) list" where
  "dashboard_daily = [(0, 2), (1, 1)]"

section \<open>Facts about the middleware\<close>

lemma protected_reject:
  "requireToken token (authorization req) = Some r \<Longrightarrow> protected token req h s = (r, s)"
  by (simp add: protected_def)

lemma protected_pass:
  "requireToken token (authorization req) = None \<Longrightarrow> protected token req h s = h s"
  by (simp add: protected_def)

lemma limited_pass:
  "hits s (ip req) < 100 \<Longrightarrow>
   limited req h s = h (s\<lparr>hits := (hits s)(ip req := Suc (hits s (ip req)))\<rparr>)"
  by (simp add: limited_def usageLimiter_def Let_def)

lemma limited_reject:
  "100 \<le> hits s (ip req) \<Longrightarrow>
   limited req h s = (Reply 429 (ErrorRetryAfter ''rate_limit_exceeded'' 60),
                      s\<lparr>hits := (hits s)(ip req := Suc (hits s (ip req)))\<rparr>)"
  by (simp add: limited_def usageLimiter_def Let_def)

lemma strip_bearer_guess: "strip_bearer ''Bearer guess'' = ''guess''"
  by (simp add: strip_bearer_def ascii_lower_def is_space_def)

text \<open>
  Claim C1, as the code has it. A request to a route behind \<open>requireToken\<close> (every
  route but \<^verbatim>\<open>/health\<close> and \<^verbatim>\<open>/api/stats\<close>) that the rate limiter in front of
  \<^verbatim>\<open>POST /api/usage\<close> lets through is answered as follows. When no token is configured
  (the variable is unset or empty), the answer is 500 with
  \<^verbatim>\<open>{error:"server_not_configured"}\<close>, whatever the \<^verbatim>\<open>Authorization\<close> header. When a
  token is configured and the header, with its \<^verbatim>\<open>Bearer\<close> prefix removed, is absent or
  differs from it, the answer is 401 with \<^verbatim>\<open>{error:"unauthorized"}\<close>. In both cases the
  handler is not reached: nothing of the state changes but the limiter's count.
\<close>

theorem requireToken_guards_protected_routes:
  assumes "endpoint req \<noteq> GET_health" and "endpoint req \<noteq> GET_api_stats"
    and "endpoint req = POST_api_usage \<Longrightarrow> hits s (ip req) < 100"
  shows "((token = None \<or> token = Some []) \<longrightarrow>
            handle pg token now req s =
              (Reply 500 (Error ''server_not_configured''),
               if endpoint req = POST_api_usage
               then s\<lparr>hits := (hits s)(ip req := Suc (hits s (ip req)))\<rparr> else s))
       \<and> ((token \<noteq> None \<and> token \<noteq> Some []
            \<and> map_option strip_bearer (authorization req) \<noteq> token) \<longrightarrow>
            handle pg token now req s =
              (Reply 401 (Error ''unauthorized''),
               if endpoint req = POST_api_usage
               then s\<lparr>hits := (hits s)(ip req := Suc (hits s (ip req)))\<rparr> else s))"
proof (intro conjI impI)
  assume "token = None \<or> token = Some []"
  then have r: "requireToken token (authorization req)
                  = Some (Reply 500 (Error ''server_not_configured''))"
    by (auto simp: requireToken_def)
  show "handle pg token now req s =
          (Reply 500 (Error ''server_not_configured''),
           if endpoint req = POST_api_usage
           then s\<lparr>hits := (hits s)(ip req := Suc (hits s (ip req)))\<rparr> else s)"
    using assms
    by (cases "endpoint req") (simp_all add: handle_def protected_reject [OF r] limited_pass)
next
  assume "token \<noteq> None \<and> token \<noteq> Some []
            \<and> map_option strip_bearer (authorization req) \<noteq> token"
  then have r: "requireToken token (authorization req) = Some (Reply 401 (Error ''unauthorized''))"
    by (auto simp: requireToken_def)
  show "handle pg token now req s =
          (Reply 401 (Error ''unauthorized''),
           if endpoint req = POST_api_usage
           then s\<lparr>hits := (hits s)(ip req := Suc (hits s (ip req)))\<rparr> else s)"
    using assms
    by (cases "endpoint req") (simp_all add: handle_def protected_reject [OF r] limited_pass)
qed

theorem requireToken_guards_protected_routes_witness:
  "handle example_postgres (Some ''secret'') 0 wrong_token_request fresh_server
     = (Reply 401 (Error ''unauthorized''), fresh_server)
   \<and> handle example_postgres None 0 wrong_token_request fresh_server
     = (Reply 500 (Error ''server_not_configured''), fresh_server)"
  using requireToken_guards_protected_routes
          [of wrong_token_request fresh_server "Some ''secret''" example_postgres 0]
        requireToken_guards_protected_routes
          [of wrong_token_request fresh_server None example_postgres 0]
  by (simp add: wrong_token_request_def strip_bearer_guess)

text \<open>
  Claim C1 as it is stated, for every request to a route behind the token, fails on
  \<^verbatim>\<open>POST /api/usage\<close>: with no token configured, a request from an address that has
  used up its window is answered 429 by the limiter, not 500.
\<close>

theorem rate_limit_answers_before_requireToken:
  "fst (handle example_postgres None 0 unconfigured_usage_request exhausted_server)
     = Reply 429 (ErrorRetryAfter ''rate_limit_exceeded'' 60)
   \<and> fst (handle example_postgres None 0 unconfigured_usage_request exhausted_server)
     \<noteq> Reply 500 (Error ''server_not_configured'')"
  by (simp add: handle_def limited_def usageLimiter_def unconfigured_usage_request_def
        exhausted_server_def fresh_server_def)

lemma strip_bearer_secret: "strip_bearer ''Bearer secret'' = ''secret''"
  by (simp add: strip_bearer_def ascii_lower_def is_space_def)

section \<open>What the handlers leave alone\<close>

lemma pool_query_hits: "hits (snd (pool_query q s)) = hits s"
  by (simp add: pool_query_def Let_def split: prod.splits)

lemma await_hits:
  assumes "\<And>r s1. hits (snd (k r s1)) = hits s1"
  shows "hits (snd (await m k)) = hits (snd m)"
  using assms by (cases m) (auto simp: await_def split: sum.splits)

lemma api_usage_hits: "hits (snd (api_usage pg now b s)) = hits s"
  by (simp add: api_usage_def Let_def await_hits pool_query_hits split: list.splits)

section \<open>The rate limiter\<close>

text \<open>
  Claim C10. On \<^verbatim>\<open>POST /api/usage\<close> the limiter runs before the token check. Every
  request adds one to the count of its address, whatever its token and whatever the
  answer. From an address that has used up its 100 requests, the answer is 429 with
  \<^verbatim>\<open>{error:"rate_limit_exceeded", retry_after:60}\<close>, whatever the configured token and
  the \<^verbatim>\<open>Authorization\<close> header, and nothing else of the state changes. Below that, the
  request goes on to the token check and the handler.
\<close>

theorem usageLimiter_runs_before_requireToken:
  assumes "endpoint req = POST_api_usage"
  shows "hits (snd (handle pg token now req s)) = (hits s)(ip req := Suc (hits s (ip req)))
       \<and> (100 \<le> hits s (ip req) \<longrightarrow>
            handle pg token now req s =
              (Reply 429 (ErrorRetryAfter ''rate_limit_exceeded'' 60),
               s\<lparr>hits := (hits s)(ip req := Suc (hits s (ip req)))\<rparr>))
       \<and> (hits s (ip req) < 100 \<longrightarrow>
            handle pg token now req s =
              protected token req (api_usage pg now (body req))
                (s\<lparr>hits := (hits s)(ip req := Suc (hits s (ip req)))\<rparr>))"
proof (intro conjI impI)
  show "hits (snd (handle pg token now req s)) = (hits s)(ip req := Suc (hits s (ip req)))"
  proof (cases "hits s (ip req) < 100")
    case True
    then show ?thesis using assms
      by (simp add: handle_def limited_pass protected_def api_usage_hits split: option.splits)
  next
    case False
    then show ?thesis using assms by (simp add: handle_def limited_reject)
  qed
qed (use assms in \<open>simp_all add: handle_def limited_pass limited_reject\<close>)

theorem usageLimiter_runs_before_requireToken_witness:
  "hits (snd (handle example_postgres (Some ''secret'') 0 valid_usage_request exhausted_server))
      ''10.0.0.1'' = 101
   \<and> handle example_postgres (Some ''secret'') 0 valid_usage_request exhausted_server
       = (Reply 429 (ErrorRetryAfter ''rate_limit_exceeded'' 60),
          exhausted_server\<lparr>hits := (hits exhausted_server)(''10.0.0.1'' := 101)\<rparr>)
   \<and> fst (handle example_postgres (Some ''secret'') 0 valid_usage_request fresh_server)
       = Reply 404 (Error ''app_not_found'')"
  using usageLimiter_runs_before_requireToken
          [where req = valid_usage_request and token = "Some ''secret''"
             and pg = example_postgres and now = 0 and s = exhausted_server]
        usageLimiter_runs_before_requireToken
          [where req = valid_usage_request and token = "Some ''secret''"
             and pg = example_postgres and now = 0 and s = fresh_server]
  apply (simp add: valid_usage_request_def exhausted_server_def fresh_server_def)
  apply (simp add: protected_def requireToken_def strip_bearer_secret api_usage_def
      body_or_empty_def field_def default_to_def await_def pool_query_def select_app_id_def
      empty_database_def)
  done

section \<open>The open routes\<close>

lemma requireToken_no_header:
  "requireToken token None = Some (Reply 500 (Error ''server_not_configured''))
   \<or> requireToken token None = Some (Reply 401 (Error ''unauthorized''))"
  by (auto simp: requireToken_def)

lemma health_connected:
  "connected s \<Longrightarrow> health s = (Reply 200 Healthy, s\<lparr>queries := Suc (queries s)\<rparr>)"
  by (simp add: health_def pool_query_def select_1_def)

lemma api_stats_connected:
  "connected s \<Longrightarrow>
   api_stats now s =
     (Reply 200 (StatsReport
        \<lparr>total_apps = length (apps (db s)),
         hits_24h = length (filter (\<lambda>e. now - 24 * hour \<le> u_ts e) (usage_events (db s))),
         errors_24h = length (filter (\<lambda>e. now - 24 * hour \<le> u_ts e
                                          \<and> is_error_status (u_status e)) (usage_events (db s))),
         deploys_7d = length (filter (\<lambda>x. now - 7 * day \<le> d_deployed_at x)
                                (deployments (db s)))\<rparr>),
      s\<lparr>queries := Suc (queries s)\<rparr>)"
  by (simp add: api_stats_def pool_query_def stats_query_def await_def json_first_def)

text \<open>
  Claim C8. Only \<^verbatim>\<open>GET /health\<close> and \<^verbatim>\<open>GET /api/stats\<close> are mounted without
  \<open>requireToken\<close>. For a request without \<^verbatim>\<open>Authorization\<close> header, these two give their
  success response (with the database reachable): the health report, and the row of
  the four counts. Every other route rejects the request, with 500 or 401 from the
  token check or 429 from the limiter, before any statement is issued: the count of
  calls of \<^verbatim>\<open>pool.query\<close> and the database are as before.
\<close>

theorem token_enforced_except_health_and_stats:
  assumes "authorization req = None"
  shows "(endpoint req = GET_health \<and> connected s \<longrightarrow>
            handle pg token now req s = (Reply 200 Healthy, s\<lparr>queries := Suc (queries s)\<rparr>))
       \<and> (endpoint req = GET_api_stats \<and> connected s \<longrightarrow>
            handle pg token now req s =
              (Reply 200 (StatsReport
                 \<lparr>total_apps = length (apps (db s)),
                  hits_24h = length (filter (\<lambda>e. now - 24 * hour \<le> u_ts e) (usage_events (db s))),
                  errors_24h = length (filter (\<lambda>e. now - 24 * hour \<le> u_ts e
                                                   \<and> is_error_status (u_status e))
                                         (usage_events (db s))),
                  deploys_7d = length (filter (\<lambda>x. now - 7 * day \<le> d_deployed_at x)
                                         (deployments (db s)))\<rparr>),
               s\<lparr>queries := Suc (queries s)\<rparr>))
       \<and> (endpoint req \<noteq> GET_health \<and> endpoint req \<noteq> GET_api_stats \<longrightarrow>
            (fst (handle pg token now req s) = Reply 500 (Error ''server_not_configured'')
             \<or> fst (handle pg token now req s) = Reply 401 (Error ''unauthorized'')
             \<or> fst (handle pg token now req s) = Reply 429 (ErrorRetryAfter ''rate_limit_exceeded'' 60))
            \<and> queries (snd (handle pg token now req s)) = queries s
            \<and> db (snd (handle pg token now req s)) = db s)"
proof (intro conjI impI)
  assume "endpoint req = GET_health \<and> connected s"
  then show "handle pg token now req s = (Reply 200 Healthy, s\<lparr>queries := Suc (queries s)\<rparr>)"
    by (simp add: handle_def health_connected)
next
  assume "endpoint req = GET_api_stats \<and> connected s"
  then show "handle pg token now req s =
              (Reply 200 (StatsReport
                 \<lparr>total_apps = length (apps (db s)),
                  hits_24h = length (filter (\<lambda>e. now - 24 * hour \<le> u_ts e) (usage_events (db s))),
                  errors_24h = length (filter (\<lambda>e. now - 24 * hour \<le> u_ts e
                                                   \<and> is_error_status (u_status e))
                                         (usage_events (db s))),
                  deploys_7d = length (filter (\<lambda>x. now - 7 * day \<le> d_deployed_at x)
                                         (deployments (db s)))\<rparr>),
               s\<lparr>queries := Suc (queries s)\<rparr>)"
    by (simp add: handle_def api_stats_connected)
next
  assume e: "endpoint req \<noteq> GET_health \<and> endpoint req \<noteq> GET_api_stats"
  from requireToken_no_header [of token] assms
  obtain r where r: "requireToken token (authorization req) = Some r"
    and r': "r = Reply 500 (Error ''server_not_configured'') \<or> r = Reply 401 (Error ''unauthorized'')"
    by auto
  have other: "endpoint req \<noteq> POST_api_usage \<Longrightarrow> handle pg token now req s = (r, s)"
    using e by (cases "endpoint req") (simp_all add: handle_def protected_reject [OF r])
  have usage: "endpoint req = POST_api_usage \<Longrightarrow>
      handle pg token now req s =
        (if hits s (ip req) < 100 then r else Reply 429 (ErrorRetryAfter ''rate_limit_exceeded'' 60),
         s\<lparr>hits := (hits s)(ip req := Suc (hits s (ip req)))\<rparr>)"
    by (simp add: handle_def limited_pass limited_reject protected_reject [OF r])
  show "fst (handle pg token now req s) = Reply 500 (Error ''server_not_configured'')
        \<or> fst (handle pg token now req s) = Reply 401 (Error ''unauthorized'')
        \<or> fst (handle pg token now req s) = Reply 429 (ErrorRetryAfter ''rate_limit_exceeded'' 60)"
    using other usage r' by (cases "endpoint req = POST_api_usage") auto
  show "queries (snd (handle pg token now req s)) = queries s"
    using other usage by (cases "endpoint req = POST_api_usage") auto
  show "db (snd (handle pg token now req s)) = db s"
    using other usage by (cases "endpoint req = POST_api_usage") auto
qed

theorem token_enforced_except_health_and_stats_witness:
  "handle example_postgres (Some ''secret'') 0 (anonymous_request GET_health) fresh_server
     = (Reply 200 Healthy, fresh_server\<lparr>queries := 1\<rparr>)
   \<and> fst (handle example_postgres (Some ''secret'') 0 (anonymous_request GET_api_stats) fresh_server)
     = Reply 200 (StatsReport \<lparr>total_apps = 0, hits_24h = 0, errors_24h = 0, deploys_7d = 0\<rparr>)
   \<and> fst (handle example_postgres (Some ''secret'') 0
             (anonymous_request GET_api_dashboard_overview) fresh_server)
     = Reply 401 (Error ''unauthorized'')
   \<and> queries (snd (handle example_postgres (Some ''secret'') 0
             (anonymous_request GET_api_dashboard_overview) fresh_server)) = 0"
  using token_enforced_except_health_and_stats
          [where req = "anonymous_request GET_health" and s = fresh_server
             and token = "Some ''secret''" and pg = example_postgres and now = 0]
        token_enforced_except_health_and_stats
          [where req = "anonymous_request GET_api_stats" and s = fresh_server
             and token = "Some ''secret''" and pg = example_postgres and now = 0]
        token_enforced_except_health_and_stats
          [where req = "anonymous_request GET_api_dashboard_overview" and s = fresh_server
             and token = "Some ''secret''" and pg = example_postgres and now = 0]
  apply (simp add: anonymous_request_def fresh_server_def empty_database_def)
  apply (simp add: handle_def protected_def requireToken_def)
  done

section \<open>Unknown applications\<close>

lemma select_app_id_unknown:
  assumes "\<forall>a \<in> set (apps d). prepareValue p \<noteq> Some (a_slug a)"
  shows "select_app_id p d = (Inr [], d)"
proof (cases "prepareValue p")
  case None
  then show ?thesis by (simp add: select_app_id_def)
next
  case (Some slug)
  with assms have "filter (\<lambda>a. a_slug a = slug) (apps d) = []"
    by (auto simp: filter_empty_conv)
  with Some show ?thesis by (simp add: select_app_id_def)
qed

lemma pool_query_select_unknown:
  assumes "\<forall>a \<in> set (apps (db s)). prepareValue p \<noteq> Some (a_slug a)"
  shows "pool_query (select_app_id p) s =
           (if connected s then Inr [] else Inl ConnectionFailed, s\<lparr>queries := Suc (queries s)\<rparr>)"
  using select_app_id_unknown [OF assms] by (simp add: pool_query_def)

lemma api_deployments_unknown:
  assumes "\<forall>a \<in> set (apps (db s)). prepareValue (field (body_or_empty b) ''app_slug'') \<noteq> Some (a_slug a)"
  shows "api_deployments now b s =
           (if \<not> truthy (field (body_or_empty b) ''app_slug'')
            then (Reply 400 (Error ''app_slug_required''), s)
            else (if connected s then Reply 404 (Error ''app_not_found'')
                  else Thrown ConnectionFailed, s\<lparr>queries := Suc (queries s)\<rparr>))"
  by (simp add: api_deployments_def Let_def pool_query_select_unknown [OF assms] await_def)

lemma api_usage_unknown:
  assumes "\<forall>a \<in> set (apps (db s)). prepareValue (field (body_or_empty b) ''app_slug'') \<noteq> Some (a_slug a)"
  shows "api_usage pg now b s =
           (if \<not> truthy (field (body_or_empty b) ''app_slug'')
            then (Reply 400 (Error ''app_slug_required''), s)
            else (if connected s then Reply 404 (Error ''app_not_found'')
                  else Thrown ConnectionFailed, s\<lparr>queries := Suc (queries s)\<rparr>))"
  by (simp add: api_usage_def Let_def pool_query_select_unknown [OF assms] await_def)

text \<open>
  Claim C2. An authenticated \<^verbatim>\<open>POST /api/deployments\<close> or \<^verbatim>\<open>POST /api/usage\<close> (one that
  has passed the limiter and the token check) whose \<^verbatim>\<open>app_slug\<close> is the slug of no
  registered application writes nothing: the database is as before. With \<^verbatim>\<open>app_slug\<close>
  present, which for the handler is a truthy value, the answer is 404 with
  \<^verbatim>\<open>{error:"app_not_found"}\<close>; a falsy value is answered 400 before any statement.
\<close>

theorem unknown_slug_not_found_nothing_written:
  assumes "endpoint req = POST_api_deployments \<or> endpoint req = POST_api_usage"
    and "requireToken token (authorization req) = None"
    and "endpoint req = POST_api_usage \<Longrightarrow> hits s (ip req) < 100"
    and "\<forall>a \<in> set (apps (db s)).
           prepareValue (field (body_or_empty (body req)) ''app_slug'') \<noteq> Some (a_slug a)"
  shows "db (snd (handle pg token now req s)) = db s
       \<and> (truthy (field (body_or_empty (body req)) ''app_slug'') \<and> connected s \<longrightarrow>
            fst (handle pg token now req s) = Reply 404 (Error ''app_not_found''))
       \<and> (\<not> truthy (field (body_or_empty (body req)) ''app_slug'') \<longrightarrow>
            fst (handle pg token now req s) = Reply 400 (Error ''app_slug_required''))"
proof -
  let ?s1 = "s\<lparr>hits := (hits s)(ip req := Suc (hits s (ip req)))\<rparr>"
  have apps1: "\<forall>a \<in> set (apps (db ?s1)).
           prepareValue (field (body_or_empty (body req)) ''app_slug'') \<noteq> Some (a_slug a)"
    using assms(4) by simp
  from assms(1) show ?thesis
  proof
    assume e: "endpoint req = POST_api_deployments"
    then have "handle pg token now req s = api_deployments now (body req) s"
      by (simp add: handle_def protected_pass [OF assms(2)])
    then show ?thesis by (simp add: api_deployments_unknown [OF assms(4)])
  next
    assume e: "endpoint req = POST_api_usage"
    then have "handle pg token now req s = api_usage pg now (body req) ?s1"
      using assms(3) by (simp add: handle_def limited_pass protected_pass [OF assms(2)])
    then show ?thesis by (simp add: api_usage_unknown [OF apps1])
  qed
qed

theorem unknown_slug_not_found_nothing_written_witness:
  "handle example_postgres (Some ''secret'') 0 unknown_slug_deployment blog_server
     = (Reply 404 (Error ''app_not_found''), blog_server\<lparr>queries := 1\<rparr>)"
  using unknown_slug_not_found_nothing_written
          [where req = unknown_slug_deployment and s = blog_server
             and token = "Some ''secret''" and pg = example_postgres and now = 0]
  apply (simp add: unknown_slug_deployment_def blog_server_def blog_app_def fresh_server_def
      empty_database_def requireToken_def strip_bearer_secret body_or_empty_def field_def)
  apply (simp add: handle_def protected_def requireToken_def strip_bearer_secret
      api_deployments_def body_or_empty_def field_def default_to_def await_def pool_query_def
      select_app_id_def)
  done

section \<open>Pruning\<close>




section \<open>Registering applications\<close>

lemma truthy_prepareValue: "truthy v \<Longrightarrow> \<exists>t. prepareValue v = Some t"
  by (cases v) auto

lemma filter_key_distinct:
  "distinct (map k xs) \<Longrightarrow> x \<in> set xs \<Longrightarrow> filter (\<lambda>y. k y = k x) xs = [x]"
proof (induction xs)
  case Nil
  then show ?case by simp
next
  case (Cons y ys)
  show ?case
  proof (cases "x = y")
    case True
    with Cons.prems have "\<forall>z \<in> set ys. k z \<noteq> k x" by (metis distinct.simps(2) image_eqI list.simps(9) set_map)
    then have "filter (\<lambda>y. k y = k x) ys = []" by (simp add: filter_empty_conv)
    with True show ?thesis by simp
  next
    case False
    with Cons.prems have "x \<in> set ys" "distinct (map k ys)" "k y \<noteq> k x" by auto
    with Cons.IH show ?thesis by simp
  qed
qed

lemma filter_map_update_unique:
  assumes "distinct (map k xs)" and "v \<in> set (map k xs)" and "\<And>x. k (f x) = k x"
  shows "\<exists>x \<in> set xs. k x = v
           \<and> filter (\<lambda>y. k y = v) (map (\<lambda>x. if k x = v then f x else x) xs) = [f x]"
proof -
  from assms(2) obtain x where x: "x \<in> set xs" "k x = v" by auto
  have "filter (\<lambda>y. k y = v) (map (\<lambda>x. if k x = v then f x else x) xs)
        = map (\<lambda>x. if k x = v then f x else x) (filter (\<lambda>y. k y = v) xs)"
    by (induction xs) (simp_all add: assms(3))
  also have "filter (\<lambda>y. k y = v) xs = [x]"
    using filter_key_distinct [OF assms(1) x(1)] x(2) by simp
  finally show ?thesis using x by auto
qed

lemma map_key_update:
  assumes "\<And>x. k (f x) = k x"
  shows "map k (map (\<lambda>x. if k x = v then f x else x) xs) = map k xs"
  by (induction xs) (simp_all add: assms)

lemma upsert_app_conflict:
  assumes "prepareValue p1 = Some slug" and "prepareValue p2 = Some name"
    and "slug \<in> set (map a_slug (apps d))"
  shows "upsert_app now p1 p2 p3 p4 d =
    (Inr (filter (\<lambda>a. a_slug a = slug)
            (map (\<lambda>a. if a_slug a = slug
                       then a\<lparr>a_name := name, a_repo_url := prepareValue p3,
                              a_public_url := prepareValue p4\<rparr> else a) (apps d))),
     d\<lparr>apps_id_seq := Suc (apps_id_seq d),
       apps := map (\<lambda>a. if a_slug a = slug
                       then a\<lparr>a_name := name, a_repo_url := prepareValue p3,
                              a_public_url := prepareValue p4\<rparr> else a) (apps d)\<rparr>)"
  using assms by (simp add: upsert_app_def Let_def)

lemma upsert_app_fresh:
  assumes "prepareValue p1 = Some slug" and "prepareValue p2 = Some name"
    and "slug \<notin> set (map a_slug (apps d))"
  shows "upsert_app now p1 p2 p3 p4 d =
    (Inr [\<lparr>a_id = Suc (apps_id_seq d), a_slug = slug, a_name = name,
           a_repo_url = prepareValue p3, a_public_url = prepareValue p4, a_created_at = now\<rparr>],
     d\<lparr>apps_id_seq := Suc (apps_id_seq d),
       apps := apps d @ [\<lparr>a_id = Suc (apps_id_seq d), a_slug = slug, a_name = name,
           a_repo_url = prepareValue p3, a_public_url = prepareValue p4, a_created_at = now\<rparr>]\<rparr>)"
  using assms by (simp add: upsert_app_def Let_def)

lemma upsert_app_slugs:
  assumes "prepareValue p1 = Some slug" and "prepareValue p2 = Some name"
    and "distinct (map a_slug (apps d))"
  shows "distinct (map a_slug (apps (snd (upsert_app now p1 p2 p3 p4 d))))"
proof (cases "slug \<in> set (map a_slug (apps d))")
  case True
  have "map a_slug (map (\<lambda>a. if a_slug a = slug
                       then a\<lparr>a_name := name, a_repo_url := prepareValue p3,
                              a_public_url := prepareValue p4\<rparr> else a) (apps d))
        = map a_slug (apps d)"
    by (rule map_key_update) simp
  then show ?thesis
    using assms(3) by (simp add: upsert_app_conflict [OF assms(1,2) True] del: map_map)
next
  case False
  then show ?thesis
    using assms(3) by (simp add: upsert_app_fresh [OF assms(1,2) False])
qed

lemma upsert_app_row:
  assumes "prepareValue p1 = Some slug" and "prepareValue p2 = Some name"
    and "distinct (map a_slug (apps d))"
  shows "\<exists>a. fst (upsert_app now p1 p2 p3 p4 d) = Inr [a]
           \<and> filter (\<lambda>x. a_slug x = slug) (apps (snd (upsert_app now p1 p2 p3 p4 d))) = [a]
           \<and> a_slug a = slug \<and> a_name a = name
           \<and> a_repo_url a = prepareValue p3 \<and> a_public_url a = prepareValue p4"
proof (cases "slug \<in> set (map a_slug (apps d))")
  case True
  let ?f = "\<lambda>a. a\<lparr>a_name := name, a_repo_url := prepareValue p3, a_public_url := prepareValue p4\<rparr>"
  from filter_map_update_unique [of a_slug "apps d" slug ?f, OF assms(3) True]
  obtain x where x: "x \<in> set (apps d)" "a_slug x = slug"
    "filter (\<lambda>y. a_slug y = slug) (map (\<lambda>x. if a_slug x = slug then ?f x else x) (apps d)) = [?f x]"
    by auto
  show ?thesis
    using x by (intro exI [of _ "?f x"]) (simp add: upsert_app_conflict [OF assms(1,2) True])
next
  case False
  then have "filter (\<lambda>x. a_slug x = slug) (apps d) = []"
    by (auto simp: filter_empty_conv)
  then show ?thesis
    by (simp add: upsert_app_fresh [OF assms(1,2) False])
qed

lemma api_apps_upsert:
  assumes "connected s" and "truthy (field (body_or_empty b) ''slug'')"
    and "truthy (field (body_or_empty b) ''name'')"
    and "upsert_app now (field (body_or_empty b) ''slug'') (field (body_or_empty b) ''name'')
           (or_null (field (body_or_empty b) ''repo_url''))
           (or_null (field (body_or_empty b) ''public_url'')) (db s) = (Inr rows, d)"
  shows "api_apps now b s = (json_first AppRow rows, s\<lparr>queries := Suc (queries s), db := d\<rparr>)"
  using assms by (simp add: api_apps_def Let_def pool_query_def await_def)


lemma handle_api_apps:
  assumes "endpoint req = POST_api_apps" and "requireToken token (authorization req) = None"
    and "connected s" and "distinct (map a_slug (apps (db s)))"
    and "truthy (field (body_or_empty (body req)) ''slug'')"
    and "truthy (field (body_or_empty (body req)) ''name'')"
  shows "\<exists>a. fst (handle pg token now req s) = Reply 200 (AppRow a)
           \<and> filter (\<lambda>x. Some (a_slug x) = prepareValue (field (body_or_empty (body req)) ''slug''))
                (apps (db (snd (handle pg token now req s)))) = [a]
           \<and> Some (a_name a) = prepareValue (field (body_or_empty (body req)) ''name'')
           \<and> a_repo_url a = prepareValue (or_null (field (body_or_empty (body req)) ''repo_url''))
           \<and> a_public_url a = prepareValue (or_null (field (body_or_empty (body req)) ''public_url''))"
    and "connected (snd (handle pg token now req s))"
    and "distinct (map a_slug (apps (db (snd (handle pg token now req s)))))"
proof -
  let ?b = "body_or_empty (body req)"
  let ?u = "upsert_app now (field ?b ''slug'') (field ?b ''name'')
              (or_null (field ?b ''repo_url'')) (or_null (field ?b ''public_url'')) (db s)"
  obtain slug name where t: "prepareValue (field ?b ''slug'') = Some slug"
    "prepareValue (field ?b ''name'') = Some name"
    using truthy_prepareValue assms(5,6) by blast
  from upsert_app_row [OF t assms(4)] obtain a where a: "fst ?u = Inr [a]"
    "filter (\<lambda>x. a_slug x = slug) (apps (snd ?u)) = [a]" "a_name a = name"
    "a_repo_url a = prepareValue (or_null (field ?b ''repo_url''))"
    "a_public_url a = prepareValue (or_null (field ?b ''public_url''))"
    by blast
  have u: "?u = (Inr [a], snd ?u)"
    using a(1) by (simp add: prod_eq_iff)
  have h: "handle pg token now req s
            = (Reply 200 (AppRow a), s\<lparr>queries := Suc (queries s), db := snd ?u\<rparr>)"
    using assms(1)
    by (simp add: handle_def protected_pass [OF assms(2)]
        api_apps_upsert [OF assms(3,5,6) u] json_first_def)
  show "\<exists>a. fst (handle pg token now req s) = Reply 200 (AppRow a)
           \<and> filter (\<lambda>x. Some (a_slug x) = prepareValue (field ?b ''slug''))
                (apps (db (snd (handle pg token now req s)))) = [a]
           \<and> Some (a_name a) = prepareValue (field ?b ''name'')
           \<and> a_repo_url a = prepareValue (or_null (field ?b ''repo_url''))
           \<and> a_public_url a = prepareValue (or_null (field ?b ''public_url''))"
    using a by (intro exI [of _ a]) (simp add: h t)
  show "connected (snd (handle pg token now req s))"
    using assms(3) by (simp add: h)
  show "distinct (map a_slug (apps (db (snd (handle pg token now req s)))))"
    using upsert_app_slugs [OF t assms(4)] by (simp add: h)
qed

text \<open>
  Claim C6. Two accepted \<^verbatim>\<open>POST /api/apps\<close> with the same slug \<open>sl\<close> and the names
  \<open>n1\<close> and then \<open>n2\<close>, on a table that respects the uniqueness of slugs, leave exactly
  one row with that slug; its name is \<open>n2\<close>, and it is the row the second request
  returns.
\<close>

theorem upsert_same_slug_latest_name_wins:
  assumes "endpoint req1 = POST_api_apps" and "endpoint req2 = POST_api_apps"
    and "requireToken token (authorization req1) = None"
    and "requireToken token (authorization req2) = None"
    and "connected s"
    and "distinct (map a_slug (apps (db s)))"
    and "truthy sl" and "truthy n1" and "truthy n2"
    and "field (body_or_empty (body req1)) ''slug'' = sl"
    and "field (body_or_empty (body req1)) ''name'' = n1"
    and "field (body_or_empty (body req2)) ''slug'' = sl"
    and "field (body_or_empty (body req2)) ''name'' = n2"
  shows "\<exists>a. fst (handle pg token t2 req2 (snd (handle pg token t1 req1 s))) = Reply 200 (AppRow a)
           \<and> filter (\<lambda>x. Some (a_slug x) = prepareValue sl)
                (apps (db (snd (handle pg token t2 req2 (snd (handle pg token t1 req1 s)))))) = [a]
           \<and> Some (a_name a) = prepareValue n2"
proof -
  let ?s1 = "snd (handle pg token t1 req1 s)"
  have c1: "connected ?s1" and d1: "distinct (map a_slug (apps (db ?s1)))"
    using handle_api_apps(2,3) [OF assms(1,3,5,6)] assms(7,8,10,11) by auto
  from handle_api_apps(1) [OF assms(2,4) c1 d1, of pg t2] assms(7,9,12,13)
  show ?thesis by auto
qed

lemma strip_bearer_register: "requireToken (Some ''secret'') (authorization (register_blog n)) = None"
  by (simp add: register_blog_def requireToken_def strip_bearer_secret)

theorem upsert_same_slug_latest_name_wins_witness:
  "map a_name (filter (\<lambda>x. Some (a_slug x) = prepareValue (JStr ''blog''))
     (apps (db (snd (handle example_postgres (Some ''secret'') 2 (register_blog ''Weblog'')
                  (snd (handle example_postgres (Some ''secret'') 1 (register_blog ''Blog'')
                     fresh_server))))))) = [''Weblog'']"
proof -
  have "\<exists>a. fst (handle example_postgres (Some ''secret'') 2 (register_blog ''Weblog'')
                  (snd (handle example_postgres (Some ''secret'') 1 (register_blog ''Blog'')
                     fresh_server))) = Reply 200 (AppRow a)
         \<and> filter (\<lambda>x. Some (a_slug x) = prepareValue (JStr ''blog''))
             (apps (db (snd (handle example_postgres (Some ''secret'') 2 (register_blog ''Weblog'')
                  (snd (handle example_postgres (Some ''secret'') 1 (register_blog ''Blog'')
                     fresh_server)))))) = [a]
         \<and> Some (a_name a) = prepareValue (JStr ''Weblog'')"
    by (rule upsert_same_slug_latest_name_wins [where ?n1.0 = "JStr ''Blog''"])
       (simp_all add: strip_bearer_register,
        simp_all add: register_blog_def fresh_server_def empty_database_def
          body_or_empty_def field_def)
  then show ?thesis by auto
qed


text \<open>The same two requests, evaluated on the empty database.\<close>

lemma register_twice_trace:
  "db (snd (handle example_postgres (Some ''secret'') 2 (register_blog ''Weblog'')
                  (snd (handle example_postgres (Some ''secret'') 1 (register_blog ''Blog'')
                     fresh_server))))
   = empty_database\<lparr>apps := [\<lparr>a_id = 1, a_slug = ''blog'', a_name = ''Weblog'', a_repo_url = None,
                a_public_url = None, a_created_at = 1\<rparr>], apps_id_seq := 2\<rparr>"
  by (simp add: handle_def protected_def requireToken_def strip_bearer_secret api_apps_def register_blog_def
      body_or_empty_def field_def or_null_def await_def pool_query_def upsert_app_def
      fresh_server_def empty_database_def json_first_def Let_def)

section \<open>What the ingestion routes store\<close>


















section \<open>Facts about the relational operators\<close>

lemma set_distinct_on: "set (distinct_on k xs) \<subseteq> set xs"
  by (induction k xs rule: distinct_on.induct) auto

lemma keys_distinct_on: "distinct (map k (distinct_on k xs))"
proof (induction k xs rule: distinct_on.induct)
  case (1 k)
  then show ?case by simp
next
  case (2 k x xs)
  have "k x \<notin> k ` set (distinct_on k (filter (\<lambda>y. k y \<noteq> k x) xs))"
    using set_distinct_on [of k "filter (\<lambda>y. k y \<noteq> k x) xs"] by auto
  with 2 show ?case by simp
qed

lemma find_distinct_on:
  "find (\<lambda>y. k y = v) (distinct_on k xs) = find (\<lambda>y. k y = v) xs"
proof (induction k xs rule: distinct_on.induct)
  case (1 k)
  then show ?case by simp
next
  case (2 k x xs)
  show ?case
  proof (cases "k x = v")
    case True
    then show ?thesis by simp
  next
    case False
    have "find (\<lambda>y. k y = v) (filter (\<lambda>y. k y \<noteq> k x) xs) = find (\<lambda>y. k y = v) xs"
      using False by (induction xs) auto
    with 2 False show ?thesis by simp
  qed
qed

lemma filter_distinct_key:
  "distinct (map k xs) \<Longrightarrow>
   filter (\<lambda>y. k y = v) xs = (case find (\<lambda>y. k y = v) xs of None \<Rightarrow> [] | Some y \<Rightarrow> [y])"
proof (induction xs)
  case Nil
  then show ?case by simp
next
  case (Cons x xs)
  show ?case
  proof (cases "k x = v")
    case True
    with Cons.prems have "\<forall>z \<in> set xs. k z \<noteq> v" by (metis distinct.simps(2) image_eqI list.simps(9) set_map)
    then have "filter (\<lambda>y. k y = v) xs = []" by (simp add: filter_empty_conv)
    with True show ?thesis by simp
  next
    case False
    with Cons show ?thesis by simp
  qed
qed

lemma left_join_distinct_key:
  assumes "distinct (map kr r)"
  shows "left_join l r (\<lambda>x y. kr y = kl x) = map (\<lambda>x. (x, find (\<lambda>y. kr y = kl x) r)) l"
proof -
  have "(case filter (\<lambda>y. kr y = kl x) r of [] \<Rightarrow> [(x, None)] | ms \<Rightarrow> map (\<lambda>y. (x, Some y)) ms)
        = [(x, find (\<lambda>y. kr y = kl x) r)]" for x
    by (simp add: filter_distinct_key [OF assms] split: option.splits)
  then show ?thesis
    by (induction l) (simp_all add: left_join_def)
qed

lemma keys_group_count: "map fst (group_count k xs) = remdups (map k xs)"
  by (simp add: group_count_def comp_def)

lemma filter_outer_first: "filter P (filter Q xs) = filter (\<lambda>x. P x \<and> Q x) xs"
  by (induction xs) auto

lemma filter_absent_key: "v \<notin> set (map k xs) \<Longrightarrow> filter (\<lambda>x. k x = v) xs = []"
  by (induction xs) auto

lemma find_keyed:
  "find (\<lambda>r. fst r = v) (map (\<lambda>w. (w, f w)) ks) = (if v \<in> set ks then Some (v, f v) else None)"
  by (induction ks) auto

lemma find_group_count:
  "find (\<lambda>r. fst r = v) (group_count k xs)
     = (if v \<in> set (map k xs) then Some (v, length (filter (\<lambda>x. k x = v) xs)) else None)"
  using find_keyed [of v "\<lambda>w. length (filter (\<lambda>x. k x = w) xs)" "remdups (map k xs)"]
  by (simp add: group_count_def)

lemma group_count_le:
  "r \<in> set (group_count k xs) \<Longrightarrow> snd r \<le> length xs"
  by (auto simp: group_count_def)

lemma group_count_row:
  "r \<in> set (group_count k xs) \<Longrightarrow> snd r = length (filter (\<lambda>x. k x = fst r) xs)"
  by (auto simp: group_count_def)

lemma sum_list_indicator:
  "distinct ks \<Longrightarrow> sum_list (map (\<lambda>w. if w = v then 1 else 0) ks) = (if v \<in> set ks then 1 else (0::nat))"
  by (induction ks) auto

lemma sum_counts:
  assumes "distinct ks" and "set (map k xs) \<subseteq> set ks"
  shows "sum_list (map (\<lambda>w. length (filter (\<lambda>x. k x = w) xs)) ks) = length xs"
  using assms(2)
proof (induction xs)
  case Nil
  then show ?case by simp
next
  case (Cons x xs)
  have "sum_list (map (\<lambda>w. length (filter (\<lambda>y. k y = w) (x # xs))) ks)
        = sum_list (map (\<lambda>w. (if w = k x then 1 else 0) + length (filter (\<lambda>y. k y = w) xs)) ks)"
    by (rule arg_cong [where f = sum_list], rule map_cong) auto
  also have "\<dots> = sum_list (map (\<lambda>w. if w = k x then 1 else 0) ks)
                  + sum_list (map (\<lambda>w. length (filter (\<lambda>y. k y = w) xs)) ks)"
    by (simp add: sum_list_addf)
  also have "\<dots> = 1 + length xs"
    using Cons sum_list_indicator [OF assms(1), of "k x"] by simp
  finally show ?case by simp
qed

lemma sum_group_count: "sum_list (map snd (group_count k xs)) = length xs"
proof -
  have "map snd (group_count k xs)
        = map (\<lambda>w. length (filter (\<lambda>x. k x = w) xs)) (remdups (map k xs))"
    by (simp add: group_count_def comp_def)
  then show ?thesis
    using sum_counts [of "remdups (map k xs)" k xs] by simp
qed

lemma cast_counts_fit:
  "length xs \<le> int4_max \<Longrightarrow> cast_counts (group_count k xs) = Inr (group_count k xs)"
  using group_count_le [of _ k xs]
  by (auto simp: cast_counts_def list_all_iff intro: order_trans)


section \<open>The overview\<close>

lemma find_Some_set: "find P xs = Some x \<Longrightarrow> x \<in> set xs \<and> P x"
  by (induction xs) (auto split: if_splits)

lemma find_first_of_sorted:
  fixes g :: "'a \<Rightarrow> 'k::linorder" and h :: "'a \<Rightarrow> 'h::linorder"
  assumes "sorted (map (\<lambda>x. (g x, h x)) xs)" and "find (\<lambda>x. g x = v) xs = Some x"
  shows "\<forall>y \<in> set xs. g y = v \<longrightarrow> h x \<le> h y"
  using assms
proof (induction xs)
  case Nil
  then show ?case by simp
next
  case (Cons a xs)
  show ?case
  proof (cases "g a = v")
    case True
    with Cons.prems have "x = a" by simp
    moreover from Cons.prems(1) have "\<forall>y \<in> set xs. (g a, h a) \<le> (g y, h y)" by simp
    ultimately show ?thesis using True by auto
  next
    case False
    with Cons show ?thesis by simp
  qed
qed

lemma last_deploy_some:
  assumes "find (\<lambda>l. d_app_id l = v) (last_deploy ds) = Some x"
  shows "x \<in> set ds \<and> d_app_id x = v
         \<and> (\<forall>y \<in> set ds. d_app_id y = v \<longrightarrow> d_deployed_at y \<le> d_deployed_at x)"
proof -
  let ?sorted = "sort_key (\<lambda>d. (d_app_id d, - d_deployed_at d)) ds"
  from assms have f: "find (\<lambda>l. d_app_id l = v) ?sorted = Some x"
    by (simp add: last_deploy_def find_distinct_on)
  then have "x \<in> set ?sorted" "d_app_id x = v"
    using find_Some_set [OF f] by simp_all
  moreover have "sorted (map (\<lambda>d. (d_app_id d, - d_deployed_at d)) ?sorted)"
    by (rule sorted_sort_key)
  from find_first_of_sorted [OF this f]
  have "\<forall>y \<in> set ds. d_app_id y = v \<longrightarrow> d_deployed_at y \<le> d_deployed_at x"
    by simp
  ultimately show ?thesis by simp
qed

lemma last_deploy_none:
  "find (\<lambda>l. d_app_id l = v) (last_deploy ds) = None \<longleftrightarrow> (\<forall>x \<in> set ds. d_app_id x \<noteq> v)"
  by (auto simp: last_deploy_def find_distinct_on find_None_iff)

lemma overview_query_rows:
  assumes "length (usage_events d) \<le> int4_max"
  shows "overview_query now d =
     (Inr (sort_key o_name
        (map (\<lambda>a. overview_select
                ((a, find (\<lambda>l. d_app_id l = a_id a) (last_deploy (deployments d))),
                 find (\<lambda>h. fst h = a_id a)
                   (group_count u_app_id
                      (filter (\<lambda>e. now - 24 * hour \<le> u_ts e) (usage_events d)))))
           (apps d))), d)"
proof -
  let ?u = "group_count u_app_id (filter (\<lambda>e. now - 24 * hour \<le> u_ts e) (usage_events d))"
  have "length (filter (\<lambda>e. now - 24 * hour \<le> u_ts e) (usage_events d)) \<le> int4_max"
    using assms by (meson length_filter_le order_trans)
  then have u: "usage_24h now (usage_events d) = Inr ?u"
    by (simp add: usage_24h_def cast_counts_fit)
  have j1: "left_join (apps d) (last_deploy (deployments d)) (\<lambda>a ld. d_app_id ld = a_id a)
            = map (\<lambda>a. (a, find (\<lambda>l. d_app_id l = a_id a) (last_deploy (deployments d)))) (apps d)"
    by (rule left_join_distinct_key) (simp add: last_deploy_def keys_distinct_on)
  have j2: "left_join l ?u (\<lambda>r h. fst h = a_id (fst r))
            = map (\<lambda>r. (r, find (\<lambda>h. fst h = a_id (fst r)) ?u)) l"
    for l :: "(app \<times> deployment option) list"
    by (rule left_join_distinct_key) (simp add: keys_group_count)
  show ?thesis
    by (simp add: overview_query_def u j1 j2 comp_def)
qed


lemma handle_overview:
  assumes "endpoint req = GET_api_dashboard_overview"
    and "requireToken token (authorization req) = None"
    and "connected s"
    and "length (usage_events (db s)) \<le> int4_max"
  shows "handle pg token now req s =
     (Reply 200 (OverviewRows (sort_key o_name
        (map (\<lambda>a. overview_select
                ((a, find (\<lambda>l. d_app_id l = a_id a) (last_deploy (deployments (db s)))),
                 find (\<lambda>h. fst h = a_id a)
                   (group_count u_app_id
                      (filter (\<lambda>e. now - 24 * hour \<le> u_ts e) (usage_events (db s))))))
           (apps (db s))))),
      s\<lparr>queries := Suc (queries s)\<rparr>)"
  using assms(1,3)
  by (simp add: handle_def protected_pass [OF assms(2)] dashboard_overview_def pool_query_def
      overview_query_rows [OF assms(4)] await_def)

lemma overview_trace:
  "handle example_postgres (Some ''secret'') 86400000150
     (dashboard_request GET_api_dashboard_overview) dashboard_server
   = (Reply 200 (OverviewRows [blog_overview, shop_overview]), dashboard_server\<lparr>queries := 1\<rparr>)"
  by (simp add: handle_def protected_def requireToken_def strip_bearer_secret
      dashboard_request_def dashboard_overview_def pool_query_def await_def overview_query_def
      usage_24h_def cast_counts_def group_count_def left_join_def last_deploy_def
      overview_select_def dashboard_server_def fresh_server_def empty_database_def
      blog_app_def shop_app_def deployment_at_def event_at_def hour_def int4_max_def
      blog_overview_def shop_overview_def less_eq_prod_def less_eq_char_def less_char_def
      list_le_def list_less_def)


text \<open>
  Claim C3. The overview has one row for each application, in the order of the names.
  For an application with at least one deployment, the row's \<^verbatim>\<open>deployed_at\<close>,
  \<^verbatim>\<open>environment\<close>, \<^verbatim>\<open>version\<close> and \<^verbatim>\<open>note\<close> are those of one of its deployments
  whose timestamp is maximal among its deployments, however close the timestamps are
  (so of the one with the maximal timestamp, when a single one has it); for an
  application without deployment they are NULL.
\<close>

theorem overview_latest_deployment_has_maximal_timestamp:
  assumes "endpoint req = GET_api_dashboard_overview"
    and "requireToken token (authorization req) = None"
    and "connected s"
    and "length (usage_events (db s)) \<le> int4_max"
  shows "\<exists>rs. handle pg token now req s =
               (Reply 200 (OverviewRows (sort_key o_name rs)), s\<lparr>queries := Suc (queries s)\<rparr>)
     \<and> list_all2
         (\<lambda>a r. o_slug r = a_slug a \<and> o_name r = a_name a
            \<and> (if \<exists>x \<in> set (deployments (db s)). d_app_id x = a_id a
                then \<exists>x \<in> set (deployments (db s)).
                       d_app_id x = a_id a
                       \<and> (\<forall>y \<in> set (deployments (db s)).
                             d_app_id y = a_id a \<longrightarrow> d_deployed_at y \<le> d_deployed_at x)
                       \<and> o_deployed_at r = Some (d_deployed_at x)
                       \<and> o_environment r = Some (d_environment x)
                       \<and> o_version r = d_version x
                       \<and> o_note r = d_note x
                else o_deployed_at r = None \<and> o_environment r = None
                     \<and> o_version r = None \<and> o_note r = None))
         (apps (db s)) rs"
proof -
  let ?ds = "deployments (db s)"
  let ?row = "\<lambda>a. overview_select
                ((a, find (\<lambda>l. d_app_id l = a_id a) (last_deploy ?ds)),
                 find (\<lambda>h. fst h = a_id a)
                   (group_count u_app_id
                      (filter (\<lambda>e. now - 24 * hour \<le> u_ts e) (usage_events (db s)))))"
  have row: "o_slug (?row a) = a_slug a \<and> o_name (?row a) = a_name a
            \<and> (if \<exists>x \<in> set ?ds. d_app_id x = a_id a
                then \<exists>x \<in> set ?ds.
                       d_app_id x = a_id a
                       \<and> (\<forall>y \<in> set ?ds. d_app_id y = a_id a \<longrightarrow> d_deployed_at y \<le> d_deployed_at x)
                       \<and> o_deployed_at (?row a) = Some (d_deployed_at x)
                       \<and> o_environment (?row a) = Some (d_environment x)
                       \<and> o_version (?row a) = d_version x
                       \<and> o_note (?row a) = d_note x
                else o_deployed_at (?row a) = None \<and> o_environment (?row a) = None
                     \<and> o_version (?row a) = None \<and> o_note (?row a) = None)" for a
  proof (cases "find (\<lambda>l. d_app_id l = a_id a) (last_deploy ?ds)")
    case None
    then have "\<forall>x \<in> set ?ds. d_app_id x \<noteq> a_id a"
      by (simp add: last_deploy_none)
    with None show ?thesis by (simp add: overview_select_def)
  next
    case (Some x)
    from last_deploy_some [OF Some]
    have x: "x \<in> set ?ds" "d_app_id x = a_id a"
      "\<forall>y \<in> set ?ds. d_app_id y = a_id a \<longrightarrow> d_deployed_at y \<le> d_deployed_at x"
      by simp_all
    then have "\<exists>x \<in> set ?ds. d_app_id x = a_id a" by blast
    moreover have "\<exists>z \<in> set ?ds.
                       d_app_id z = a_id a
                       \<and> (\<forall>y \<in> set ?ds. d_app_id y = a_id a \<longrightarrow> d_deployed_at y \<le> d_deployed_at z)
                       \<and> o_deployed_at (?row a) = Some (d_deployed_at z)
                       \<and> o_environment (?row a) = Some (d_environment z)
                       \<and> o_version (?row a) = d_version z
                       \<and> o_note (?row a) = d_note z"
      using x Some by (intro bexI [of _ x]) (simp_all add: overview_select_def)
    ultimately show ?thesis by (simp add: overview_select_def)
  qed
  show ?thesis
    using row
    by (intro exI [of _ "map ?row (apps (db s))"])
       (simp add: handle_overview [OF assms] list_all2_map2 list_all2_same)
qed

theorem overview_latest_deployment_has_maximal_timestamp_witness:
  "handle example_postgres (Some ''secret'') 86400000150
     (dashboard_request GET_api_dashboard_overview) dashboard_server
     = (Reply 200 (OverviewRows [blog_overview, shop_overview]), dashboard_server\<lparr>queries := 1\<rparr>)
   \<and> deployments (db dashboard_server) = [deployment_at 1 ''v1'' 300, deployment_at 2 ''v2'' 301]
   \<and> o_deployed_at blog_overview = Some 301
   \<and> o_version blog_overview = Some ''v2''
   \<and> o_deployed_at shop_overview = None"
proof -
  have a1: "endpoint (dashboard_request GET_api_dashboard_overview) = GET_api_dashboard_overview"
    by (simp add: dashboard_request_def)
  have a2: "requireToken (Some ''secret'')
              (authorization (dashboard_request GET_api_dashboard_overview)) = None"
    by (simp add: dashboard_request_def requireToken_def strip_bearer_secret)
  have a3: "connected dashboard_server"
    by (simp add: dashboard_server_def fresh_server_def)
  have a4: "length (usage_events (db dashboard_server)) \<le> int4_max"
    by (simp add: dashboard_server_def fresh_server_def int4_max_def)
  from overview_latest_deployment_has_maximal_timestamp
         [OF a1 a2 a3 a4, where pg = example_postgres and now = 86400000150]
  obtain rs where "sort_key o_name rs = [blog_overview, shop_overview]"
    by (auto simp: overview_trace)
  then show ?thesis
    by (simp add: overview_trace)
       (simp add: blog_overview_def shop_overview_def dashboard_server_def fresh_server_def)
qed

text \<open>
  Claim C7. In the row of each application, \<^verbatim>\<open>hits_24h\<close> is the number of usage events
  of that application with a timestamp in the last 24 hours: a number in every row, and
  0 when the application has no such event.
\<close>

theorem overview_hits_24h_counts_recent_events:
  assumes "endpoint req = GET_api_dashboard_overview"
    and "requireToken token (authorization req) = None"
    and "connected s"
    and "length (usage_events (db s)) \<le> int4_max"
  shows "\<exists>rs. handle pg token now req s =
               (Reply 200 (OverviewRows (sort_key o_name rs)), s\<lparr>queries := Suc (queries s)\<rparr>)
     \<and> list_all2
         (\<lambda>a r. o_slug r = a_slug a \<and> o_name r = a_name a
            \<and> o_hits_24h r = length (filter (\<lambda>e. u_app_id e = a_id a \<and> now - 24 * hour \<le> u_ts e)
                                        (usage_events (db s)))
            \<and> ((\<forall>e \<in> set (usage_events (db s)).
                    u_app_id e = a_id a \<longrightarrow> u_ts e < now - 24 * hour) \<longrightarrow> o_hits_24h r = 0))
         (apps (db s)) rs"
proof -
  let ?es = "filter (\<lambda>e. now - 24 * hour \<le> u_ts e) (usage_events (db s))"
  let ?row = "\<lambda>a. overview_select
                ((a, find (\<lambda>l. d_app_id l = a_id a) (last_deploy (deployments (db s)))),
                 find (\<lambda>h. fst h = a_id a) (group_count u_app_id ?es))"
  have count: "filter (\<lambda>x. u_app_id x = v) ?es
               = filter (\<lambda>e. u_app_id e = v \<and> now - 24 * hour \<le> u_ts e) (usage_events (db s))"
    for v
    by (rule filter_outer_first)
  have group: "o_hits_24h (?row a) = length (filter (\<lambda>x. u_app_id x = a_id a) ?es)" for a
  proof (cases "a_id a \<in> set (map u_app_id ?es)")
    case True
    then show ?thesis
      by (simp add: overview_select_def find_group_count del: set_map set_filter filter_filter)
  next
    case False
    then have "filter (\<lambda>x. u_app_id x = a_id a) ?es = []"
      by (rule filter_absent_key)
    with False show ?thesis
      by (simp add: overview_select_def find_group_count del: set_map set_filter filter_filter)
  qed
  have hits: "o_hits_24h (?row a)
              = length (filter (\<lambda>e. u_app_id e = a_id a \<and> now - 24 * hour \<le> u_ts e)
                          (usage_events (db s)))" for a
    by (simp only: group count)
  have zero: "(\<forall>e \<in> set (usage_events (db s)). u_app_id e = a_id a \<longrightarrow> u_ts e < now - 24 * hour)
              \<Longrightarrow> o_hits_24h (?row a) = 0" for a
    by (auto simp: hits filter_empty_conv)
  have "o_slug (?row a) = a_slug a \<and> o_name (?row a) = a_name a" for a
    by (simp add: overview_select_def)
  with hits zero show ?thesis
    by (intro exI [of _ "map ?row (apps (db s))"])
       (simp add: handle_overview [OF assms] list_all2_map2 list_all2_same)
qed


theorem overview_hits_24h_counts_recent_events_witness:
  "handle example_postgres (Some ''secret'') 86400000150
     (dashboard_request GET_api_dashboard_overview) dashboard_server
     = (Reply 200 (OverviewRows [blog_overview, shop_overview]), dashboard_server\<lparr>queries := 1\<rparr>)
   \<and> usage_events (db dashboard_server)
       = [event_at 1 100, event_at 2 200, event_at 3 86400000005]
   \<and> o_hits_24h blog_overview = 2
   \<and> o_hits_24h shop_overview = 0"
proof -
  have a1: "endpoint (dashboard_request GET_api_dashboard_overview) = GET_api_dashboard_overview"
    by (simp add: dashboard_request_def)
  have a2: "requireToken (Some ''secret'')
              (authorization (dashboard_request GET_api_dashboard_overview)) = None"
    by (simp add: dashboard_request_def requireToken_def strip_bearer_secret)
  have a3: "connected dashboard_server"
    by (simp add: dashboard_server_def fresh_server_def)
  have a4: "length (usage_events (db dashboard_server)) \<le> int4_max"
    by (simp add: dashboard_server_def fresh_server_def int4_max_def)
  from overview_hits_24h_counts_recent_events
         [OF a1 a2 a3 a4, where pg = example_postgres and now = 86400000150]
  obtain rs where "sort_key o_name rs = [blog_overview, shop_overview]"
    by (auto simp: overview_trace)
  then show ?thesis
    by (simp add: overview_trace)
       (simp add: blog_overview_def shop_overview_def dashboard_server_def fresh_server_def)
qed

section \<open>The analytics\<close>

lemma sum_list_insort_key:
  "sum_list (map f (insort_key k x xs)) = f x + (sum_list (map f xs) :: nat)"
  by (induction xs) auto

lemma sum_list_sort_key:
  "sum_list (map f (sort_key k xs)) = (sum_list (map f xs) :: nat)"
  by (induction xs) (simp_all add: sum_list_insort_key)

lemma keys_sort_key_distinct:
  "distinct (map k xs) \<Longrightarrow> distinct (map k (sort_key k xs))"
  by (induction xs) (simp_all add: distinct_insort_key)

lemma length_inner_join_le:
  assumes "distinct (map kr r)"
  shows "length (inner_join l r (\<lambda>x y. kr y = kl x)) \<le> length l"
proof -
  have "length (filter (\<lambda>y. kr y = v) r) \<le> 1" for v
    by (simp add: filter_distinct_key [OF assms] split: option.splits)
  then have "length (map (\<lambda>y. (x, y)) (filter (\<lambda>y. kr y = kl x) r)) \<le> 1" for x
    by simp
  then show ?thesis
    unfolding inner_join_def
  proof (induction l)
    case Nil
    then show ?case by simp
  next
    case (Cons x l)
    from Cons.prems [of x] Cons.IH [OF Cons.prems] show ?case by simp
  qed
qed

lemma dailyQ_rows:
  assumes "length (usage_events d) \<le> int4_max"
  shows "dailyQ now d =
     (Inr (sort_key fst (group_count (\<lambda>e. u_ts e div day)
                           (filter (\<lambda>e. now - 7 * day \<le> u_ts e) (usage_events d)))), d)"
proof -
  have "length (filter (\<lambda>e. now - 7 * day \<le> u_ts e) (usage_events d)) \<le> int4_max"
    using assms by (meson length_filter_le order_trans)
  then show ?thesis by (simp add: dailyQ_def cast_counts_fit)
qed

lemma byAppQ_succeeds:
  assumes "length (usage_events d) \<le> int4_max" and "distinct (map a_id (apps d))"
  shows "\<exists>rows. byAppQ now d = (Inr rows, d)"
proof -
  have "length (inner_join (usage_events d) (apps d) (\<lambda>ue a. a_id a = u_app_id ue))
          \<le> length (usage_events d)"
    by (rule length_inner_join_le [OF assms(2)])
  then have "length (filter (\<lambda>r. now - 7 * day \<le> u_ts (fst r))
                (inner_join (usage_events d) (apps d) (\<lambda>ue a. a_id a = u_app_id ue)))
              \<le> int4_max"
    using assms(1) by (meson length_filter_le order_trans)
  then show ?thesis by (simp add: byAppQ_def cast_counts_fit)
qed

lemma recentDeploysQ_succeeds:
  assumes "length (deployments d) \<le> int4_max"
  shows "recentDeploysQ now d =
           (Inr [length (filter (\<lambda>x. now - 7 * day \<le> d_deployed_at x) (deployments d))], d)"
proof -
  have "length (filter (\<lambda>x. now - 7 * day \<le> d_deployed_at x) (deployments d)) \<le> int4_max"
    using assms by (meson length_filter_le order_trans)
  then show ?thesis by (simp add: recentDeploysQ_def cast_counts_def)
qed

lemma handle_analytics:
  assumes "endpoint req = GET_api_dashboard_analytics"
    and "requireToken token (authorization req) = None"
    and "connected s"
    and "length (usage_events (db s)) \<le> int4_max"
    and "length (deployments (db s)) \<le> int4_max"
    and "distinct (map a_id (apps (db s)))"
  shows "\<exists>by_app. handle pg token now req s =
     (Reply 200 (AnalyticsReport
        (sort_key fst (group_count (\<lambda>e. u_ts e div day)
                         (filter (\<lambda>e. now - 7 * day \<le> u_ts e) (usage_events (db s)))))
        by_app
        (length (filter (\<lambda>x. now - 7 * day \<le> d_deployed_at x) (deployments (db s))))),
      s\<lparr>queries := Suc (Suc (Suc (queries s)))\<rparr>)"
proof -
  from byAppQ_succeeds [OF assms(4,6)] obtain rows where b: "byAppQ now (db s) = (Inr rows, db s)"
    by blast
  show ?thesis
    using assms(1,3)
    by (intro exI [of _ rows])
       (simp add: handle_def protected_pass [OF assms(2)] dashboard_analytics_def pool_query_def
          dailyQ_rows [OF assms(4)] b recentDeploysQ_succeeds [OF assms(5)])
qed


lemma analytics_trace:
  "handle example_postgres (Some ''secret'') 86400000150
     (dashboard_request GET_api_dashboard_analytics) dashboard_server
   = (Reply 200 (AnalyticsReport dashboard_daily [(''Blog'', 3)] 2),
      dashboard_server\<lparr>queries := 3\<rparr>)"
  by (simp add: handle_def protected_def requireToken_def strip_bearer_secret
      dashboard_request_def dashboard_analytics_def pool_query_def dailyQ_def byAppQ_def
      recentDeploysQ_def cast_counts_def group_count_def inner_join_def
      dashboard_server_def fresh_server_def empty_database_def
      blog_app_def shop_app_def deployment_at_def event_at_def day_def int4_max_def
      dashboard_daily_def)

text \<open>
  Claim C4. The totals of the days that the analytics return for the last 7 days add up
  to the number of usage events with a timestamp of at least \<open>now\<close> minus 7 days: each
  day is returned once, with the number of the events of the window that fall on it.
\<close>

theorem analytics_daily_totals_sum_to_7_day_count:
  assumes "endpoint req = GET_api_dashboard_analytics"
    and "requireToken token (authorization req) = None"
    and "connected s"
    and "length (usage_events (db s)) \<le> int4_max"
    and "length (deployments (db s)) \<le> int4_max"
    and "distinct (map a_id (apps (db s)))"
  shows "\<exists>daily by_app n.
           handle pg token now req s =
             (Reply 200 (AnalyticsReport daily by_app n), s\<lparr>queries := Suc (Suc (Suc (queries s)))\<rparr>)
         \<and> sum_list (map snd daily)
             = length (filter (\<lambda>e. now - 7 * day \<le> u_ts e) (usage_events (db s)))
         \<and> distinct (map fst daily)
         \<and> (\<forall>r \<in> set daily.
               snd r = length (filter (\<lambda>e. now - 7 * day \<le> u_ts e \<and> u_ts e div day = fst r)
                                 (usage_events (db s))))"
proof -
  let ?es = "filter (\<lambda>e. now - 7 * day \<le> u_ts e) (usage_events (db s))"
  let ?g = "group_count (\<lambda>e. u_ts e div day) ?es"
  from handle_analytics [OF assms] obtain by_app where
    h: "handle pg token now req s =
          (Reply 200 (AnalyticsReport (sort_key fst ?g) by_app
             (length (filter (\<lambda>x. now - 7 * day \<le> d_deployed_at x) (deployments (db s))))),
           s\<lparr>queries := Suc (Suc (Suc (queries s)))\<rparr>)"
    by blast
  have total: "sum_list (map snd (sort_key fst ?g)) = length ?es"
    by (simp add: sum_list_sort_key sum_group_count)
  have "distinct (map fst ?g)"
    by (simp add: keys_group_count)
  then have keys: "distinct (map fst (sort_key fst ?g))"
    by (rule keys_sort_key_distinct)
  have rows: "\<forall>r \<in> set (sort_key fst ?g).
               snd r = length (filter (\<lambda>e. now - 7 * day \<le> u_ts e \<and> u_ts e div day = fst r)
                                 (usage_events (db s)))"
  proof
    fix r assume "r \<in> set (sort_key fst ?g)"
    then have "r \<in> set ?g" by simp
    from group_count_row [OF this]
    have "snd r = length (filter (\<lambda>x. u_ts x div day = fst r) ?es)" .
    also have "filter (\<lambda>x. u_ts x div day = fst r) ?es
               = filter (\<lambda>e. now - 7 * day \<le> u_ts e \<and> u_ts e div day = fst r) (usage_events (db s))"
      by (rule filter_filter)
    finally show "snd r = length (filter (\<lambda>e. now - 7 * day \<le> u_ts e \<and> u_ts e div day = fst r)
                                 (usage_events (db s)))" .
  qed
  from h total keys rows show ?thesis by blast
qed

theorem analytics_daily_totals_sum_to_7_day_count_witness:
  "handle example_postgres (Some ''secret'') 86400000150
     (dashboard_request GET_api_dashboard_analytics) dashboard_server
     = (Reply 200 (AnalyticsReport dashboard_daily [(''Blog'', 3)] 2),
        dashboard_server\<lparr>queries := 3\<rparr>)
   \<and> sum_list (map snd dashboard_daily) = 3
   \<and> length (filter (\<lambda>e. 86400000150 - 7 * day \<le> u_ts e)
               (usage_events (db dashboard_server))) = 3"
proof -
  have a1: "endpoint (dashboard_request GET_api_dashboard_analytics) = GET_api_dashboard_analytics"
    by (simp add: dashboard_request_def)
  have a2: "requireToken (Some ''secret'')
              (authorization (dashboard_request GET_api_dashboard_analytics)) = None"
    by (simp add: dashboard_request_def requireToken_def strip_bearer_secret)
  have a3: "connected dashboard_server"
    by (simp add: dashboard_server_def fresh_server_def)
  have a4: "length (usage_events (db dashboard_server)) \<le> int4_max"
    by (simp add: dashboard_server_def fresh_server_def int4_max_def)
  have a5: "length (deployments (db dashboard_server)) \<le> int4_max"
    by (simp add: dashboard_server_def fresh_server_def int4_max_def)
  have a6: "distinct (map a_id (apps (db dashboard_server)))"
    by (simp add: dashboard_server_def fresh_server_def shop_app_def blog_app_def)
  from analytics_daily_totals_sum_to_7_day_count
         [OF a1 a2 a3 a4 a5 a6, where pg = example_postgres and now = 86400000150]
  have "sum_list (map snd dashboard_daily)
          = length (filter (\<lambda>e. 86400000150 - 7 * day \<le> u_ts e)
                      (usage_events (db dashboard_server)))"
    by (auto simp: analytics_trace)
  moreover have "sum_list (map snd dashboard_daily) = 3"
    by (simp add: dashboard_daily_def)
  ultimately show ?thesis
    by (simp add: analytics_trace)
qed

section \<open>The constraints are kept\<close>

lemma map_key_update_if:
  assumes "\<And>x. k (f x) = k x"
  shows "map k (map (\<lambda>x. if P x then f x else x) xs) = map k xs"
  by (induction xs) (simp_all add: assms)

lemma constraints_empty: "constraints empty_database"
  by (simp add: constraints_def empty_database_def)

lemma upsert_app_constraints:
  assumes "constraints d"
  shows "constraints (snd (upsert_app now p1 p2 p3 p4 d))"
proof (cases "prepareValue p1")
  case None
  with assms show ?thesis
    by (auto simp: upsert_app_def constraints_def Let_def)
next
  case s: (Some slug)
  show ?thesis
  proof (cases "prepareValue p2")
    case None
    with s assms show ?thesis
      by (auto simp: upsert_app_def constraints_def Let_def)
  next
    case n: (Some name)
    show ?thesis
    proof (cases "slug \<in> set (map a_slug (apps d))")
      case True
      let ?f = "\<lambda>a. a\<lparr>a_name := name, a_repo_url := prepareValue p3, a_public_url := prepareValue p4\<rparr>"
      let ?rows = "map (\<lambda>a. if a_slug a = slug then ?f a else a) (apps d)"
      have ids: "map a_id ?rows = map a_id (apps d)"
        by (rule map_key_update_if) simp
      have slugs: "map a_slug ?rows = map a_slug (apps d)"
        by (rule map_key_update) simp
      have seq: "\<forall>a \<in> set ?rows. a_id a \<le> Suc (apps_id_seq d)"
        using assms by (auto simp: constraints_def)
      from assms ids slugs seq show ?thesis
        unfolding constraints_def upsert_app_conflict [OF s n True]
        by (simp del: map_map set_map) 
    next
      case False
      have "Suc (apps_id_seq d) \<notin> set (map a_id (apps d))"
        using assms by (auto simp: constraints_def)
      with assms False show ?thesis
        unfolding constraints_def upsert_app_fresh [OF s n False]
        by auto
    qed
  qed
qed


lemma insert_deployment_constraints:
  "constraints d \<Longrightarrow> constraints (snd (insert_deployment now p1 p2 p3 p4 p5 d))"
  by (auto simp: insert_deployment_def constraints_def Let_def split: option.splits)

lemma insert_usage_event_constraints:
  "constraints d \<Longrightarrow> constraints (snd (insert_usage_event pg now p1 p2 p3 p4 p5 p6 p7 p8 d))"
  by (auto simp: insert_usage_event_def constraints_def Let_def split: option.splits sum.splits)

lemma prune_query_constraints:
  "constraints d \<Longrightarrow> constraints (snd (prune_query pg now p1 d))"
  by (auto simp: prune_query_def constraints_def split: option.splits sum.splits)

lemma pool_query_constraints:
  assumes "\<And>d. constraints d \<Longrightarrow> constraints (snd (q d))" and "constraints (db s)"
  shows "constraints (db (snd (pool_query q s)))"
  using assms(1) [OF assms(2)] assms(2)
  by (auto simp: pool_query_def Let_def split: prod.splits)

lemma await_constraints:
  assumes "constraints (db (snd m))"
    and "\<And>r s1. constraints (db s1) \<Longrightarrow> constraints (db (snd (k r s1)))"
  shows "constraints (db (snd (await m k)))"
  using assms by (cases m) (auto simp: await_def split: sum.splits)

lemma protected_constraints:
  assumes "\<And>s1. constraints (db s1) \<Longrightarrow> constraints (db (snd (h s1)))" and "constraints (db s)"
  shows "constraints (db (snd (protected token req h s)))"
  using assms by (simp add: protected_def split: option.splits)

lemma limited_constraints:
  assumes "\<And>s1. constraints (db s1) \<Longrightarrow> constraints (db (snd (h s1)))" and "constraints (db s)"
  shows "constraints (db (snd (limited req h s)))"
proof -
  have "constraints (db (s\<lparr>hits := (hits s)(ip req := Suc (hits s (ip req)))\<rparr>))"
    using assms(2) by simp
  from assms(1) [OF this] assms(2) show ?thesis
    by (simp add: limited_def usageLimiter_def Let_def)
qed

lemma api_apps_constraints:
  "constraints (db s) \<Longrightarrow> constraints (db (snd (api_apps now b s)))"
  by (simp add: api_apps_def Let_def await_constraints pool_query_constraints
      upsert_app_constraints)

lemma api_deployments_constraints:
  "constraints (db s) \<Longrightarrow> constraints (db (snd (api_deployments now b s)))"
  by (simp add: api_deployments_def Let_def)
     (intro impI await_constraints pool_query_constraints;
      simp add: select_app_id_def await_constraints pool_query_constraints
        insert_deployment_constraints split: option.splits list.splits)

lemma api_usage_constraints:
  "constraints (db s) \<Longrightarrow> constraints (db (snd (api_usage pg now b s)))"
  by (simp add: api_usage_def Let_def)
     (intro impI await_constraints pool_query_constraints;
      simp add: select_app_id_def await_constraints pool_query_constraints
        insert_usage_event_constraints split: option.splits list.splits)

lemma admin_prune_constraints:
  "constraints (db s) \<Longrightarrow> constraints (db (snd (admin_prune pg now b s)))"
  by (simp add: admin_prune_def Let_def await_constraints pool_query_constraints
      prune_query_constraints)

lemma read_only_handlers:
  "db (snd (health s)) = db s"
  "db (snd (dashboard_overview now s)) = db s"
  "db (snd (dashboard_analytics now s)) = db s"
  "db (snd (dashboard_deployments s)) = db s"
  "db (snd (dashboard_routes now s)) = db s"
  "db (snd (dashboard_errors now s)) = db s"
  "db (snd (api_stats now s)) = db s"
  by (auto simp: health_def dashboard_overview_def dashboard_analytics_def
      dashboard_deployments_def dashboard_routes_def dashboard_errors_def api_stats_def
      pool_query_def await_def select_1_def overview_query_def dailyQ_def byAppQ_def
      recentDeploysQ_def history_query_def routes_query_def errors_query_def stats_query_def
      Let_def split: prod.splits sum.splits if_splits)

lemma handle_constraints:
  assumes "constraints (db s)"
  shows "constraints (db (snd (handle pg token now req s)))"
  using assms
  by (cases "endpoint req")
     (simp_all add: handle_def read_only_handlers protected_constraints limited_constraints
        api_apps_constraints api_deployments_constraints api_usage_constraints
        admin_prune_constraints)


text \<open>
  The constraints hold in every state that the server reaches from the empty database,
  so that the theorems that assume unique slugs or keys speak of all these states.
\<close>

lemma serve_constraints:
  "constraints (db s) \<Longrightarrow> constraints (db (serve pg token rs s))"
  by (induction rs arbitrary: s) (simp_all add: handle_constraints)

lemma reachable_constraints: "constraints (db (serve pg token rs fresh_server))"
  by (rule serve_constraints) (simp add: fresh_server_def constraints_empty)

section \<open>The token check in the first version\<close>

text \<open>
  Without the limiter, every route behind \<open>requireToken\<close> answers 500 when no token
  is configured and 401 when the presented token differs, without reaching its handler.
\<close>

lemma requireToken_guards_v1:
  assumes "handle_v1 pg token now req = Some h" and "endpoint req \<noteq> GET_health"
  shows "((token = None \<or> token = Some []) \<longrightarrow>
            h s = (Reply 500 (Error ''server_not_configured''), s))
       \<and> ((token \<noteq> None \<and> token \<noteq> Some []
            \<and> map_option strip_bearer (authorization req) \<noteq> token) \<longrightarrow>
            h s = (Reply 401 (Error ''unauthorized''), s))"
proof (intro conjI impI)
  assume "token = None \<or> token = Some []"
  then have r: "requireToken token (authorization req)
                  = Some (Reply 500 (Error ''server_not_configured''))"
    by (auto simp: requireToken_def)
  show "h s = (Reply 500 (Error ''server_not_configured''), s)"
    using assms
    by (cases "endpoint req") (auto simp: handle_v1_def protected_reject [OF r])
next
  assume "token \<noteq> None \<and> token \<noteq> Some []
            \<and> map_option strip_bearer (authorization req) \<noteq> token"
  then have r: "requireToken token (authorization req) = Some (Reply 401 (Error ''unauthorized''))"
    by (auto simp: requireToken_def)
  show "h s = (Reply 401 (Error ''unauthorized''), s)"
    using assms
    by (cases "endpoint req") (auto simp: handle_v1_def protected_reject [OF r])
qed

section \<open>The end of a window\<close>

text \<open>When the window of an address has ended, its next request passes the limiter.\<close>

lemma limited_after_window_end:
  "limited req h (window_end (ip req) s) = h (s\<lparr>hits := (hits s)(ip req := 1)\<rparr>)"
  by (simp add: limited_def usageLimiter_def window_end_def Let_def)

end
